theory Spec2Isabelle
  imports Main "HOL-Library.Sublist"
begin

section \<open>Errors\<close>

text \<open>
  \<^verbatim>\<open>type HttpReqOp byte\<close> with the five constants declared by \<^verbatim>\<open>iota\<close>.
\<close>

datatype HttpReqOp =
    OpGetPage
  | OpGetSdkScript
  | OpPostSensorData
  | OpGetPixelChallengeScript
  | OpPostPixelPayload

text \<open>The two sentinel causes of a \<^verbatim>\<open>*strconv.NumError\<close>.\<close>

datatype strconv_cause = ErrSyntax | ErrRange

text \<open>
  Go's \<^verbatim>\<open>error\<close> values that the package creates or passes on. \<open>NumError\<close> carries
  \<^verbatim>\<open>Func\<close>, \<^verbatim>\<open>Num\<close> and \<^verbatim>\<open>Err\<close>; \<open>Errorf\<close> keeps the format string and its integer
  arguments of a \<^verbatim>\<open>fmt.Errorf\<close> call; \<open>joinError\<close> is the value built by
  \<^verbatim>\<open>errors.Join\<close>; \<open>ExternalError\<close> is an error made by a collaborator (the
  caller's transport, \<^verbatim>\<open>net/url\<close>, the remote service).
\<close>

datatype error =
    ErrInvalidPageURL
  | ErrPixelHtmlVarNotFound
  | ErrPixelScriptVarNotFound
  | HttpOpError HttpReqOp
  | BadStatusCodeError int
  | ApiOperationError int string
  | NumError string string strconv_cause
  | Errorf string "int list"
  | joinError "error list"
  | ExternalError string

text \<open>
  \<^verbatim>\<open>errors.Join(errs...)\<close>: nil values are discarded, and the result is nil when none is
  left. The arguments are given as options, \<open>None\<close> for nil.
\<close>

definition errors_Join :: "error option list \<Rightarrow> error option" where
  "errors_Join errs =
     (let es = List.map_filter (\<lambda>e. e) errs
      in if es = [] then None else Some (joinError es))"

section \<open>Package strings\<close>

text \<open>
  \<^verbatim>\<open>strings.Split(s, sep)\<close> for a non-empty separator: the pieces between the leftmost
  non-overlapping occurrences of \<open>sep\<close>. Every call in the package passes a one-byte
  separator; the empty-separator case of the library (explode into UTF-8 sequences) is
  not part of the model.
\<close>

fun split_go :: "string \<Rightarrow> string \<Rightarrow> string \<Rightarrow> string list" where
  "split_go sep acc [] = [rev acc]"
| "split_go sep acc (x # xs) =
     (if prefix sep (x # xs)
      then rev acc # split_go sep [] (drop (length sep - 1) xs)
      else split_go sep (x # acc) xs)"

definition Split :: "string \<Rightarrow> string \<Rightarrow> string list" where
  "Split s sep = split_go sep [] s"

text \<open>\<^verbatim>\<open>strings.Join(elems, sep)\<close>.\<close>

fun Join :: "string list \<Rightarrow> string \<Rightarrow> string" where
  "Join [] sep = []"
| "Join [x] sep = x"
| "Join (x # y # ys) sep = x @ sep @ Join (y # ys) sep"

section \<open>Package strconv\<close>

text \<open>
  The value of a byte as a digit in \<^verbatim>\<open>ParseUint\<close>: \<^verbatim>\<open>'0'..'9'\<close> give 0 to 9, and a
  byte whose \<^verbatim>\<open>lower(c) = c | ('x' - 'X')\<close> lies in \<^verbatim>\<open>'a'..'z'\<close> gives
  \<^verbatim>\<open>lower(c) - 'a' + 10\<close>. The bytes with \<^verbatim>\<open>c | 0x20\<close> in \<^verbatim>\<open>'a'..'z'\<close> are exactly
  \<^verbatim>\<open>'A'..'Z'\<close> and \<^verbatim>\<open>'a'..'z'\<close>.
\<close>

definition digit_val :: "char \<Rightarrow> nat option" where
  "digit_val c =
     (let b = (of_char c :: nat)
      in if 48 \<le> b \<and> b \<le> 57 then Some (b - 48)
         else if 97 \<le> b \<and> b \<le> 122 then Some (b - 97 + 10)
         else if 65 \<le> b \<and> b \<le> 90 then Some (b + 32 - 97 + 10)
         else None)"

text \<open>
  The loop of \<^verbatim>\<open>ParseUint\<close> over the bytes of \<open>s\<close>, on \<^verbatim>\<open>uint64\<close> values: \<open>cutoff\<close> is
  \<^verbatim>\<open>maxUint64/base + 1\<close>, the product cannot wrap below it, and the sum \<^verbatim>\<open>n + d\<close>
  wraps modulo \<open>2 ^ 64\<close>. The result is the pair the Go function returns: the number and
  the cause of the error, if any.
\<close>

fun ParseUint_loop :: "nat \<Rightarrow> nat \<Rightarrow> nat \<Rightarrow> string \<Rightarrow> nat \<times> strconv_cause option" where
  "ParseUint_loop base maxVal n [] = (n, None)"
| "ParseUint_loop base maxVal n (c # cs) =
     (case digit_val c of
        None \<Rightarrow> (0, Some ErrSyntax)
      | Some d \<Rightarrow>
          if d \<ge> base then (0, Some ErrSyntax)
          else if n \<ge> (2 ^ 64 - 1) div base + 1 then (maxVal, Some ErrRange)
          else
            let n' = n * base; n1 = (n' + d) mod 2 ^ 64
            in if n1 < n' \<or> n1 > maxVal then (maxVal, Some ErrRange)
               else ParseUint_loop base maxVal n1 cs)"

text \<open>
  \<^verbatim>\<open>strconv.ParseUint(s, base, bitSize)\<close> for an explicit base from 2 to 36 (the package
  uses 10 and 16; with such a base an underscore is a syntax error, as any other byte
  that is no digit). A \<open>bitSize\<close> of 0 stands for the 64 bits of \<^verbatim>\<open>int\<close>.
\<close>

definition ParseUint :: "string \<Rightarrow> nat \<Rightarrow> nat \<Rightarrow> nat \<times> error option" where
  "ParseUint s base bitSize =
     (if s = [] then (0, Some (NumError ''ParseUint'' s ErrSyntax))
      else
        let bits = (if bitSize = 0 then 64 else bitSize);
            maxVal = 2 ^ bits - 1
        in case ParseUint_loop base maxVal 0 s of
             (n, None) \<Rightarrow> (n, None)
           | (n, Some c) \<Rightarrow> (n, Some (NumError ''ParseUint'' s c)))"

text \<open>\<^verbatim>\<open>strconv.ParseInt(s, base, bitSize)\<close>.\<close>

definition ParseInt :: "string \<Rightarrow> nat \<Rightarrow> nat \<Rightarrow> int \<times> error option" where
  "ParseInt s base bitSize =
     (if s = [] then (0, Some (NumError ''ParseInt'' s ErrSyntax))
      else
        let neg = (hd s = CHR ''-'');
            s1 = (if hd s = CHR ''+'' \<or> hd s = CHR ''-'' then tl s else s);
            bits = (if bitSize = 0 then 64 else bitSize);
            cutoff = (2::nat) ^ (bits - 1)
        in case ParseUint s1 base bitSize of
             (un, Some (NumError f num ErrSyntax)) \<Rightarrow> (0, Some (NumError ''ParseInt'' s ErrSyntax))
           | (un, _) \<Rightarrow>
               if \<not> neg \<and> un \<ge> cutoff then (int cutoff - 1, Some (NumError ''ParseInt'' s ErrRange))
               else if neg \<and> un > cutoff then (- int cutoff, Some (NumError ''ParseInt'' s ErrRange))
               else (if neg then - int un else int un, None))"

text \<open>
  The fast path of \<^verbatim>\<open>strconv.Atoi\<close> for strings of 1 to 18 bytes: \<^verbatim>\<open>ch -= '0'\<close> on a
  byte wraps modulo 256, so \<^verbatim>\<open>ch > 9\<close> holds for every byte that is no decimal digit.
  At most 18 digits cannot overflow a 64-bit \<^verbatim>\<open>int\<close>.
\<close>

fun Atoi_fast_loop :: "int \<Rightarrow> string \<Rightarrow> int option" where
  "Atoi_fast_loop n [] = Some n"
| "Atoi_fast_loop n (ch # cs) =
     (let d = ((of_char ch :: nat) + 256 - 48) mod 256
      in if d > 9 then None else Atoi_fast_loop (n * 10 + int d) cs)"

definition Atoi :: "string \<Rightarrow> int \<times> error option" where
  "Atoi s =
     (if 0 < length s \<and> length s < 19 then
        let signed = (hd s = CHR ''-'' \<or> hd s = CHR ''+'');
            s1 = (if signed then tl s else s)
        in if signed \<and> length s1 < 1 then (0, Some (NumError ''Atoi'' s ErrSyntax))
           else case Atoi_fast_loop 0 s1 of
                  None \<Rightarrow> (0, Some (NumError ''Atoi'' s ErrSyntax))
                | Some n \<Rightarrow> (if hd s = CHR ''-'' then - n else n, None)
      else
        case ParseInt s 10 0 of
          (i64, Some (NumError f num c)) \<Rightarrow> (i64, Some (NumError ''Atoi'' num c))
        | (i64, e) \<Rightarrow> (i64, e))"

section \<open>Package unicode/utf8\<close>

text \<open>\<^verbatim>\<open>utf8.RuneError\<close>, U+FFFD.\<close>

definition RuneError :: nat where
  "RuneError = 65533"

text \<open>
  \<^verbatim>\<open>utf8.DecodeRune(p)\<close>: the first rune of \<open>p\<close> and its width in bytes. The table
  \<^verbatim>\<open>first\<close> of the library is written as the ranges of the leading byte: below
  \<^verbatim>\<open>0x80\<close> ASCII, \<^verbatim>\<open>0xC2..0xDF\<close> two bytes, \<^verbatim>\<open>0xE0..0xEF\<close> three, \<^verbatim>\<open>0xF0..0xF4\<close>
  four, every other byte invalid; \<open>lo\<close> and \<open>hi\<close> are the accept range of the second
  byte. An invalid or short encoding gives \<open>(RuneError, 1)\<close>. The masks and shifts of the
  source are written as \<open>mod\<close> and multiplication: \<^verbatim>\<open>p0 & 0x1F\<close> is \<open>p0 mod 32\<close>,
  \<^verbatim>\<open>b & 0x3F\<close> is \<open>b mod 64\<close>, \<^verbatim>\<open>x << 6\<close> is \<open>x * 64\<close>, and the parts joined by
  \<^verbatim>\<open>|\<close> have no bit in common.
\<close>

fun DecodeRune :: "string \<Rightarrow> nat \<times> nat" where
  "DecodeRune [] = (RuneError, 0)"
| "DecodeRune (c # cs) =
     (let p0 = (of_char c :: nat)
      in if p0 < 128 then (p0, 1)
         else if p0 < 194 \<or> 244 < p0 then (RuneError, 1)
         else
           let sz = (if p0 < 224 then 2 else if p0 < 240 then 3 else 4 :: nat);
               lo = (if p0 = 224 then 160 else if p0 = 240 then 144 else 128 :: nat);
               hi = (if p0 = 237 then 159 else if p0 = 244 then 143 else 191 :: nat)
           in if length (c # cs) < sz then (RuneError, 1)
              else
                let b1 = (of_char (cs ! 0) :: nat)
                in if b1 < lo \<or> hi < b1 then (RuneError, 1)
                   else if sz \<le> 2 then ((p0 mod 32) * 64 + b1 mod 64, 2)
                   else
                     let b2 = (of_char (cs ! 1) :: nat)
                     in if b2 < 128 \<or> 191 < b2 then (RuneError, 1)
                        else if sz \<le> 3
                        then ((p0 mod 16) * 4096 + (b1 mod 64) * 64 + b2 mod 64, 3)
                        else
                          let b3 = (of_char (cs ! 2) :: nat)
                          in if b3 < 128 \<or> 191 < b3 then (RuneError, 1)
                             else ((p0 mod 8) * 262144 + (b1 mod 64) * 4096
                                     + (b2 mod 64) * 64 + b3 mod 64, 4))"

text \<open>
  \<^verbatim>\<open>utf8.AppendRune\<close> on \<open>u = uint32(r)\<close>: one byte up to \<^verbatim>\<open>0x7F\<close>, two up to
  \<^verbatim>\<open>0x7FF\<close>; a value beyond \<^verbatim>\<open>MaxRune\<close> (which a negative rune is, as \<^verbatim>\<open>uint32\<close>) or
  a surrogate is replaced by \<open>RuneError\<close>; three bytes up to \<^verbatim>\<open>0xFFFF\<close>, four
  otherwise.
\<close>

definition encode3 :: "nat \<Rightarrow> string" where
  "encode3 u = [char_of (224 + u div 4096), char_of (128 + (u div 64) mod 64),
                char_of (128 + u mod 64)]"

definition AppendRune :: "nat \<Rightarrow> string" where
  "AppendRune u =
     (if u \<le> 127 then [char_of u]
      else if u \<le> 2047 then [char_of (192 + u div 64), char_of (128 + u mod 64)]
      else if u > 1114111 \<or> (55296 \<le> u \<and> u \<le> 57343) then encode3 RuneError
      else if u \<le> 65535 then encode3 u
      else [char_of (240 + u div 262144), char_of (128 + (u div 4096) mod 64),
            char_of (128 + (u div 64) mod 64), char_of (128 + u mod 64)])"

section \<open>Package regexp\<close>

text \<open>
  The syntax trees of \<^verbatim>\<open>regexp/syntax\<close>, for the operators the package's patterns use.
  A character class is the list of its rune ranges, as in \<^verbatim>\<open>syntax.Regexp.Rune\<close>. The
  flag of a repetition is true for the greedy form (\<^verbatim>\<open>x*\<close>, \<^verbatim>\<open>x?\<close>) and false for
  the non-greedy one (\<^verbatim>\<open>x*?\<close>, \<^verbatim>\<open>x??\<close>).
\<close>

datatype regex =
    EmptyMatch
  | CharClass "(nat \<times> nat) list"
  | AnyCharNotNL
  | BeginText
  | Concat regex regex
  | Capture nat regex
  | Star bool regex
  | Quest bool regex

definition in_class :: "nat \<Rightarrow> (nat \<times> nat) list \<Rightarrow> bool" where
  "in_class r ranges = list_ex (\<lambda>(lo, hi). lo \<le> r \<and> r \<le> hi) ranges"

text \<open>
  A thread of the matcher: the input that is left, and the capture groups closed so far
  (the latest first).
\<close>

type_synonym mstate = "string \<times> (nat \<times> string) list"

text \<open>
  All the ways \<open>re\<close> matches at the start of the input left, in the order of priority of
  Go's leftmost-first semantics: a greedy repetition tries one more iteration before it
  stops, a non-greedy one stops first. \<open>n\<close> is the length of the whole text, for
  \<^verbatim>\<open>^\<close> (\<open>BeginText\<close>; the patterns are compiled without the multi-line flag). Input
  is read one rune at a time with \<open>DecodeRune\<close>, as \<^verbatim>\<open>inputBytes.step\<close> does, so an
  invalid byte is the rune \<open>RuneError\<close> of width 1. An iteration of a repetition that
  consumes nothing is dropped; the patterns of the package repeat single characters
  only.
\<close>

fun threads :: "nat \<Rightarrow> regex \<Rightarrow> mstate \<Rightarrow> mstate list" where
  "threads n EmptyMatch st = [st]"
| "threads n (CharClass ranges) st =
     (if fst st = [] then []
      else let (r, w) = DecodeRune (fst st)
           in if in_class r ranges then [(drop w (fst st), snd st)] else [])"
| "threads n AnyCharNotNL st =
     (if fst st = [] then []
      else let (r, w) = DecodeRune (fst st)
           in if r \<noteq> 10 then [(drop w (fst st), snd st)] else [])"
| "threads n BeginText st = (if length (fst st) = n then [st] else [])"
| "threads n (Concat a b) st = concat (map (threads n b) (threads n a st))"
| "threads n (Capture i r) st =
     map (\<lambda>st'. (fst st', (i, take (length (fst st) - length (fst st')) (fst st)) # snd st'))
       (threads n r st)"
| "threads n (Quest greedy r) st =
     (if greedy then threads n r st @ [st] else st # threads n r st)"
| "threads n (Star greedy r) st =
     (let more = concat (map (\<lambda>st'. if length (fst st') < length (fst st)
                                        then threads n (Star greedy r) st' else [])
                           (threads n r st))
      in if greedy then more @ [st] else st # more)"

declare threads.simps [simp del]

text \<open>
  The unanchored search of \<^verbatim>\<open>doExecute\<close>: the first thread at the leftmost position
  where the pattern matches; positions advance by the width of the rune there. The
  result is the start offset of the match and the thread.
\<close>

function search :: "nat \<Rightarrow> regex \<Rightarrow> string \<Rightarrow> (nat \<times> mstate) option" where
  "search n re s =
     (case threads n re (s, []) of
        st # _ \<Rightarrow> Some (n - length s, st)
      | [] \<Rightarrow> if s = [] then None else search n re (drop (snd (DecodeRune s)) s))"
  by pat_completeness auto
termination
proof (relation "measure (\<lambda>(n, re, s). length s)")
  show "wf (measure (\<lambda>(n, re, s). length s))" by simp
next
  fix n :: nat and re :: regex and s :: string
  assume "s \<noteq> []"
  then obtain c cs where s: "s = c # cs" by (cases s) auto
  have "0 < snd (DecodeRune (c # cs))"
    by (simp add: Let_def)
  then show "((n, re, drop (snd (DecodeRune s)) s), (n, re, s)) \<in> measure (\<lambda>(n, re, s). length s)"
    using s by simp
qed

declare search.simps [simp del]

declare DecodeRune.simps(2) [simp del]

text \<open>A compiled pattern: its syntax tree and the number of its capture groups.\<close>

record Regexp =
  prog :: regex
  numSubexp :: nat

text \<open>
  The slice a \<^verbatim>\<open>FindSubmatch\<close> returns for a match: the text of the whole match, then
  the text of each group (the empty string for a group that took no part, which the
  package cannot tell from nil: it only converts the entries to strings).
\<close>

definition submatches :: "Regexp \<Rightarrow> string \<Rightarrow> nat \<times> mstate \<Rightarrow> string list" where
  "submatches re b m =
     (let start = fst m; stop = length b - length (fst (snd m)); caps = snd (snd m)
      in take (stop - start) (drop start b)
         # map (\<lambda>i. case map_of caps i of None \<Rightarrow> [] | Some g \<Rightarrow> g) [1 ..< numSubexp re + 1])"

text \<open>\<^verbatim>\<open>(*Regexp).Match(b)\<close>.\<close>

definition Match :: "Regexp \<Rightarrow> string \<Rightarrow> bool" where
  "Match re b = (search (length b) (prog re) b \<noteq> None)"

text \<open>\<^verbatim>\<open>(*Regexp).FindSubmatch(b)\<close>; the empty list stands for nil.\<close>

definition FindSubmatch :: "Regexp \<Rightarrow> string \<Rightarrow> string list" where
  "FindSubmatch re b =
     (case search (length b) (prog re) b of
        None \<Rightarrow> []
      | Some m \<Rightarrow> submatches re b m)"

text \<open>A thread never has more input left than it started with.\<close>

lemma threads_length:
  "st' \<in> set (threads n re st) \<Longrightarrow> length (fst st') \<le> length (fst st)"
proof (induction n re st arbitrary: st' rule: threads.induct)
  case (1 n st)
  then show ?case by (simp add: threads.simps)
next
  case (2 n ranges st)
  then show ?case by (auto simp: threads.simps Let_def split: if_splits prod.splits)
next
  case (3 n st)
  then show ?case by (auto simp: threads.simps Let_def split: if_splits prod.splits)
next
  case (4 n st)
  then show ?case by (auto simp: threads.simps split: if_splits)
next
  case (5 n a b st)
  from 5(3) obtain mid where m: "mid \<in> set (threads n a st)" and s: "st' \<in> set (threads n b mid)"
    by (auto simp: threads.simps(5))
  from 5(1) [OF m] 5(2) [OF m s] show ?case by simp
next
  case (6 n i r st)
  then show ?case by (auto simp: threads.simps(6))
next
  case (7 n greedy r st)
  show ?case
  proof (cases "st' = st")
    case True
    then show ?thesis by simp
  next
    case False
    with 7(3) have "st' \<in> set (threads n r st)"
      by (auto simp: threads.simps(7) split: if_splits)
    then show ?thesis
      using 7(1) [of st'] 7(2) [of st'] by (cases greedy) simp_all
  qed
next
  case (8 n greedy r st)
  from 8(3) consider "st' = st"
    | mid where "mid \<in> set (threads n r st)" "length (fst mid) < length (fst st)"
        "st' \<in> set (threads n (Star greedy r) mid)"
    unfolding threads.simps(8) [of n greedy r st]
    by (auto simp: Let_def split: if_splits)
  then show ?case
  proof cases
    case 1
    then show ?thesis by simp
  next
    case 2
    from 8(2) [OF 2(1) 2(2) 2(3)] 2(2) show ?thesis by simp
  qed
qed

lemma search_length:
  "search n re s = Some m \<Longrightarrow> length (fst (snd m)) \<le> length s"
proof (induction n re s rule: search.induct)
  case (1 n re s)
  note eq = search.simps [of n re s]
  show ?case
  proof (cases "threads n re (s, [])")
    case Nil
    show ?thesis
    proof (cases "s = []")
      case True
      from eq Nil True have "search n re s = None" by simp
      with 1(2) show ?thesis by simp
    next
      case False
      from eq Nil False have "search n re s = search n re (drop (snd (DecodeRune s)) s)"
        by simp
      with 1(2) have "search n re (drop (snd (DecodeRune s)) s) = Some m" by simp
      from 1(1) [OF Nil False this] show ?thesis by simp
    qed
  next
    case (Cons st sts)
    then have "st \<in> set (threads n re (s, []))" by simp
    from threads_length [OF this] have "length (fst st) \<le> length s" by simp
    moreover from eq Cons 1(2) have "m = (n - length s, st)" by simp
    ultimately show ?thesis by simp
  qed
qed

text \<open>
  The loop of \<^verbatim>\<open>(*Regexp).allMatches\<close>, which \<^verbatim>\<open>FindAllSubmatch\<close> runs: successive
  matches, each searched from the end of the one before; an empty match right after a
  match is not delivered, and after an empty match the position moves on by one rune.
  \<open>n\<close> bounds the number of matches, \<open>i\<close> counts them.
\<close>

function allMatches :: "Regexp \<Rightarrow> string \<Rightarrow> nat \<Rightarrow> nat \<Rightarrow> int \<Rightarrow> nat \<Rightarrow> string list list" where
  "allMatches re b n pos prevMatchEnd i =
     (if i < n \<and> pos \<le> length b then
        (case search (length b) (prog re) (drop pos b) of
           None \<Rightarrow> []
         | Some m \<Rightarrow>
             let start = fst m;
                 stop = length b - length (fst (snd m));
                 accept = \<not> (stop = pos \<and> int start = prevMatchEnd);
                 width = snd (DecodeRune (drop pos b));
                 pos' = (if stop = pos then (if width > 0 then pos + width else length b + 1)
                         else stop)
             in (if accept then [submatches re b m] else [])
                @ allMatches re b n pos' (int stop) (if accept then i + 1 else i))
      else [])"
  by pat_completeness auto
termination
proof (relation "measure (\<lambda>(re, b, n, pos, prevMatchEnd, i). length b + 1 - pos)", goal_cases)
  case 1
  show ?case by simp
next
  case (2 re b n pos prevMatchEnd i m start stop accept width pos')
  from 2(1) have le: "pos \<le> length b" by simp
  have "length (fst (snd m)) \<le> length (drop pos b)"
    using 2(2) by (rule search_length)
  with le have ge: "pos \<le> stop" unfolding 2(4) by simp
  have "pos < pos'"
  proof (cases "stop = pos")
    case True
    with le show ?thesis unfolding 2(7) by simp
  next
    case False
    with ge show ?thesis unfolding 2(7) by simp
  qed
  with le show ?case by simp
qed

declare allMatches.simps [simp del]

text \<open>\<^verbatim>\<open>(*Regexp).FindAllSubmatch(b, -1)\<close>: a negative bound stands for \<^verbatim>\<open>len(b) + 1\<close>.\<close>

definition FindAllSubmatch :: "Regexp \<Rightarrow> string \<Rightarrow> string list list" where
  "FindAllSubmatch re b = allMatches re b (length b + 1) 0 (- 1) 0"

subsection \<open>Building the patterns\<close>

text \<open>A literal string, matched rune by rune (the patterns' literals are ASCII).\<close>

fun Literal :: "string \<Rightarrow> regex" where
  "Literal [] = EmptyMatch"
| "Literal (c # cs) = Concat (CharClass [(of_char c, of_char c)]) (Literal cs)"

text \<open>
  The runes a literal ASCII character matches under the flag \<^verbatim>\<open>(?i)\<close>: its orbit under
  \<^verbatim>\<open>unicode.SimpleFold\<close>. For a letter that is both cases, and beyond ASCII the Kelvin
  sign U+212A for \<^verbatim>\<open>k\<close> and the long s U+017F for \<^verbatim>\<open>s\<close>.
\<close>

definition simpleFold :: "char \<Rightarrow> (nat \<times> nat) list" where
  "simpleFold c =
     (let b = (of_char c :: nat);
          more = (if b = 75 \<or> b = 107 then [(8490, 8490)]
                  else if b = 83 \<or> b = 115 then [(383, 383)] else [])
      in if 65 \<le> b \<and> b \<le> 90 then [(b, b), (b + 32, b + 32)] @ more
         else if 97 \<le> b \<and> b \<le> 122 then [(b - 32, b - 32), (b, b)] @ more
         else [(b, b)])"

fun LiteralFold :: "string \<Rightarrow> regex" where
  "LiteralFold [] = EmptyMatch"
| "LiteralFold (c # cs) = Concat (CharClass (simpleFold c)) (LiteralFold cs)"

declare Literal.simps [simp del] LiteralFold.simps [simp del]

text \<open>\<^verbatim>\<open>x+\<close> is \<^verbatim>\<open>xx*\<close>, and \<^verbatim>\<open>x+?\<close> is \<^verbatim>\<open>xx*?\<close>.\<close>

definition Plus :: "bool \<Rightarrow> regex \<Rightarrow> regex" where
  "Plus greedy r = Concat r (Star greedy r)"

fun Seq :: "regex list \<Rightarrow> regex" where
  "Seq [] = EmptyMatch"
| "Seq (r # rs) = Concat r (Seq rs)"

text \<open>
  The Perl classes \<^verbatim>\<open>\d\<close> and \<^verbatim>\<open>\w\<close> (ASCII only in Go), and \<^verbatim>\<open>\w\<close> under
  \<^verbatim>\<open>(?i)\<close>, where the parser adds the case folds of its letters.
\<close>

definition perl_d :: "(nat \<times> nat) list" where
  "perl_d = [(48, 57)]"

definition perl_w :: "(nat \<times> nat) list" where
  "perl_w = [(48, 57), (65, 90), (95, 95), (97, 122)]"

definition perl_w_fold :: "(nat \<times> nat) list" where
  "perl_w_fold = [(48, 57), (65, 90), (95, 95), (97, 122), (383, 383), (8490, 8490)]"

section \<open>The stop signal\<close>

text \<open>\<^verbatim>\<open>IsCookieValid(value string, requestCount int) bool\<close>.\<close>

definition IsCookieValid :: "string \<Rightarrow> int \<Rightarrow> bool" where
  "IsCookieValid value requestCount =
     (let parts = Split value ''~''
      in if length parts < 2 then False
         else
           let (parsed, err) = Atoi (parts ! 1);
               requestThreshold = (if err \<noteq> None then - 1 else parsed)
           in requestThreshold \<noteq> - 1 \<and> requestCount \<ge> requestThreshold)"

section \<open>Package strings, continued\<close>

text \<open>
  \<^verbatim>\<open>strings.Replace(s, old, new, n)\<close> for a non-empty \<open>old\<close> and a count \<open>n \<ge> 0\<close>
  (the package replaces the first \<^verbatim>\<open>"x"\<close> only): the first \<open>n\<close> non-overlapping
  occurrences of \<open>old\<close> are replaced by \<open>new\<close>.
\<close>

fun replace_go :: "string \<Rightarrow> string \<Rightarrow> nat \<Rightarrow> string \<Rightarrow> string" where
  "replace_go old new 0 s = s"
| "replace_go old new (Suc k) [] = []"
| "replace_go old new (Suc k) (x # xs) =
     (if prefix old (x # xs)
      then new @ replace_go old new k (drop (length old - 1) xs)
      else x # replace_go old new (Suc k) xs)"

definition Replace :: "string \<Rightarrow> string \<Rightarrow> string \<Rightarrow> nat \<Rightarrow> string" where
  "Replace s old new n = replace_go old new n s"

section \<open>The obfuscation decoder\<close>

text \<open>
  \<^verbatim>\<open>builder.WriteRune(rune(i))\<close> for an \<^verbatim>\<open>int64\<close> \<open>i\<close>: the conversion to \<^verbatim>\<open>rune\<close>
  (\<^verbatim>\<open>int32\<close>) keeps the low 32 bits, and \<open>AppendRune\<close> reads them as \<^verbatim>\<open>uint32\<close>.
\<close>

definition WriteRune :: "int \<Rightarrow> string" where
  "WriteRune i = AppendRune (nat (i mod 2 ^ 32))"

text \<open>
  The loop of \<^verbatim>\<open>internal.FromHexString\<close> over the parts; \<open>builder\<close> is the content of
  the \<^verbatim>\<open>strings.Builder\<close>.
\<close>

fun FromHexString_loop :: "string \<Rightarrow> string list \<Rightarrow> string \<times> error option" where
  "FromHexString_loop builder [] = (builder, None)"
| "FromHexString_loop builder (char # parts) =
     (case ParseInt (Replace char ''x'' '''' 1) 16 64 of
        (i, Some err) \<Rightarrow> ([], Some err)
      | (i, None) \<Rightarrow> FromHexString_loop (builder @ WriteRune i) parts)"

text \<open>
  \<^verbatim>\<open>internal.FromHexString(s)\<close>. \<^verbatim>\<open>strings.Split\<close> returns at least one element, so
  the slice expression \<^verbatim>\<open>[1:]\<close> cannot fail.
\<close>

definition FromHexString :: "string \<Rightarrow> string \<times> error option" where
  "FromHexString s = FromHexString_loop [] (tl (Split s [CHR 0x5C]))"

section \<open>Versions and script shapes\<close>

text \<open>\<^verbatim>\<open>type Version string\<close> and its three constants.\<close>

type_synonym Version = string

definition Version17 :: Version where
  "Version17 = ''1.7''"

definition Version175 :: Version where
  "Version175 = ''1.75''"

definition Version2 :: Version where
  "Version2 = ''2''"

text \<open>The patterns \<^verbatim>\<open>^var _acxj\<close>, \<^verbatim>\<open>^\(function\<close> and \<^verbatim>\<open>^\(function \w+?\<close>.\<close>

definition version175expr :: Regexp where
  "version175expr = \<lparr>prog = Seq [BeginText, Literal ''var _acxj''], numSubexp = 0\<rparr>"

definition version2expr :: Regexp where
  "version2expr = \<lparr>prog = Seq [BeginText, Literal ''(function''], numSubexp = 0\<rparr>"

definition staticScriptExpr :: Regexp where
  "staticScriptExpr =
     \<lparr>prog = Seq [BeginText, Literal ''(function '', Plus False (CharClass perl_w)],
      numSubexp = 0\<rparr>"

definition GetSdkVersion :: "string \<Rightarrow> Version" where
  "GetSdkVersion src =
     (if Match version175expr src then Version175
      else if Match version2expr src then Version2
      else Version17)"

definition IsScriptStatic :: "string \<Rightarrow> bool" where
  "IsScriptStatic src = Match staticScriptExpr src"

section \<open>Markup extraction\<close>

text \<open>
  The pattern \<^verbatim>\<open><script type="text/javascript"(?i:.*) src="((?i)[/\w\-]+)">\<close>. Under
  \<^verbatim>\<open>(?i)\<close> the class holds \<^verbatim>\<open>-\<close>, \<^verbatim>\<open>/\<close> and the folded \<^verbatim>\<open>\w\<close>.
\<close>

definition scriptPathExpr :: Regexp where
  \<open>scriptPathExpr =
     \<lparr>prog = Seq [Literal ''<script type="text/javascript"'', Star True AnyCharNotNL,
                  Literal '' src="'',
                  Capture 1 (Plus True (CharClass ([(45, 45), (47, 47)] @ perl_w_fold))),
                  Literal ''">''],
      numSubexp = 1\<rparr>\<close>

text \<open>
  \<^verbatim>\<open>GetScriptPath(src []byte) string\<close>, the variant that \<^verbatim>\<open>Generate\<close> calls: the
  empty string when the path was not found.
\<close>

definition GetScriptPath :: "string \<Rightarrow> string" where
  "GetScriptPath src =
     (let matches = FindSubmatch scriptPathExpr src
      in if length matches < 2 then [] else matches ! 1)"

text \<open>
  \<^verbatim>\<open>GetScriptPath(src []byte) (ok bool, path string)\<close> of \<^verbatim>\<open>script_path.go\<close>, over
  the same pattern.
\<close>

definition GetScriptPath_ok :: "string \<Rightarrow> bool \<times> string" where
  "GetScriptPath_ok src =
     (let matches = FindSubmatch scriptPathExpr src;
          ok = (length matches \<ge> 2)
      in if ok then (ok, matches ! 1) else (ok, []))"

text \<open>The pattern \<^verbatim>\<open>bazadebezolkohpepadr="(\d+)"\<close>.\<close>

definition pixelHtmlExpr :: Regexp where
  \<open>pixelHtmlExpr =
     \<lparr>prog = Seq [Literal ''bazadebezolkohpepadr="'', Capture 1 (Plus True (CharClass perl_d)),
                  Literal ''"''],
      numSubexp = 1\<rparr>\<close>

text \<open>\<^verbatim>\<open>GetPixelChallengeHtmlVar(src []byte) (int, error)\<close>.\<close>

definition GetPixelChallengeHtmlVar :: "string \<Rightarrow> int \<times> error option" where
  "GetPixelChallengeHtmlVar src =
     (let matches = FindSubmatch pixelHtmlExpr src
      in if length matches < 2 then (0, Some ErrPixelHtmlVarNotFound)
         else case Atoi (matches ! 1) of
                (v, None) \<Rightarrow> (v, None)
              | (v, Some err) \<Rightarrow> (0, errors_Join [Some ErrPixelHtmlVarNotFound, Some err]))"

text \<open>The pattern \<^verbatim>\<open>(?i)src="(https?://.+/akam/\d+/\w+)"\<close>.\<close>

definition pixelScriptUrlExpr :: Regexp where
  \<open>pixelScriptUrlExpr =
     \<lparr>prog = Seq [LiteralFold ''src="'',
                  Capture 1 (Seq [LiteralFold ''http'', Quest True (LiteralFold ''s''),
                                  LiteralFold ''://'', Plus True AnyCharNotNL,
                                  LiteralFold ''/akam/'', Plus True (CharClass perl_d),
                                  LiteralFold ''/'', Plus True (CharClass perl_w_fold)]),
                  LiteralFold ''"''],
      numSubexp = 1\<rparr>\<close>

text \<open>
  \<^verbatim>\<open>GetPixelChallengeScriptURL(src []byte) (ok bool, scriptUrl, postUrl string)\<close>. The
  split of a string has at least one part, so the index \<^verbatim>\<open>len(parts)-1\<close> is in range.
\<close>

definition GetPixelChallengeScriptURL :: "string \<Rightarrow> bool \<times> string \<times> string" where
  "GetPixelChallengeScriptURL src =
     (let matches = FindSubmatch pixelScriptUrlExpr src
      in if length matches < 2 then (False, [], [])
         else
           let scriptUrl = matches ! 1;
               parts = Split scriptUrl ''/'';
               parts' = parts[length parts - 1 := ''pixel_'' @ parts ! (length parts - 1)];
               postUrl = Join parts' ''/''
           in (True, scriptUrl, postUrl))"

text \<open>
  The patterns \<^verbatim>\<open>g=_\[(\d+)]\<close>, \<^verbatim>\<open>(?i)var _=\[(.+)];\<close> and \<^verbatim>\<open>(?i)"([^",]*)"\<close>. The
  negated class matches every rune but the two it names, the newline included (the
  parser's flag \<^verbatim>\<open>ClassNL\<close> is part of \<^verbatim>\<open>syntax.Perl\<close>).
\<close>

definition pixelScriptVarExpr :: Regexp where
  "pixelScriptVarExpr =
     \<lparr>prog = Seq [Literal ''g=_['', Capture 1 (Plus True (CharClass perl_d)), Literal '']''],
      numSubexp = 1\<rparr>"

definition pixelScriptStringArrayExpr :: Regexp where
  "pixelScriptStringArrayExpr =
     \<lparr>prog = Seq [LiteralFold ''var _=['', Capture 1 (Plus True AnyCharNotNL),
                  LiteralFold ''];''],
      numSubexp = 1\<rparr>"

definition pixelScriptStringsExpr :: Regexp where
  \<open>pixelScriptStringsExpr =
     \<lparr>prog = Seq [LiteralFold ''"'',
                  Capture 1 (Star True (CharClass [(0, 33), (35, 43), (45, 1114111)])),
                  LiteralFold ''"''],
      numSubexp = 1\<rparr>\<close>

text \<open>What a call does: it panics, or it returns.\<close>

datatype 'a outcome = Panic string | Return 'a

text \<open>
  \<^verbatim>\<open>GetPixelChallengeScriptVar(src []byte) (string, error)\<close>. The only bounds check of
  the source is \<^verbatim>\<open>stringIndex >= len(rawStrings)\<close>; the index expression then panics
  for a negative index.
\<close>

definition GetPixelChallengeScriptVar :: "string \<Rightarrow> (string \<times> error option) outcome" where
  "GetPixelChallengeScriptVar src =
     (let index = FindSubmatch pixelScriptVarExpr src
      in if length index \<noteq> 2 then
           Return ([], errors_Join [Some ErrPixelScriptVarNotFound,
             Some (Errorf ''len(index) expected 2, got: %d'' [int (length index)])])
         else case Atoi (index ! 1) of
           (stringIndex, Some err) \<Rightarrow>
             Return ([], errors_Join [Some ErrPixelScriptVarNotFound, Some err])
         | (stringIndex, None) \<Rightarrow>
             let arrayDeclaration = FindSubmatch pixelScriptStringArrayExpr src
             in if length arrayDeclaration < 2 then
                  Return ([], errors_Join [Some ErrPixelScriptVarNotFound,
                    Some (Errorf ''len(arrayDeclaration) expected 2, got: %d''
                            [int (length arrayDeclaration)])])
                else
                  let rawStrings = FindAllSubmatch pixelScriptStringsExpr (arrayDeclaration ! 1)
                  in if stringIndex \<ge> int (length rawStrings) then
                       Return ([], errors_Join [Some ErrPixelScriptVarNotFound,
                         Some (Errorf ''string index out of range: %d >= %d''
                                 [stringIndex, int (length rawStrings)])])
                     else if stringIndex < 0 then
                       Panic ''runtime error: index out of range''
                     else if length (rawStrings ! nat stringIndex) \<noteq> 2 then
                       Return ([], errors_Join [Some ErrPixelScriptVarNotFound,
                         Some (Errorf ''len(rawStrings[stringIndex]) expected 2, got: %d''
                                 [int (length (rawStrings ! nat stringIndex))])])
                     else case FromHexString (rawStrings ! nat stringIndex ! 1) of
                            (v, None) \<Rightarrow> Return (v, None)
                          | (v, Some err) \<Rightarrow>
                              Return ([], errors_Join [Some ErrPixelScriptVarNotFound, Some err]))"

section \<open>The generation orchestrator\<close>

subsection \<open>Requests, responses and collaborators\<close>

text \<open>
  The request and response schemas. Field names must be unique among the records of a
  theory, so the fields of the pixel and dynamic-script schemas carry a prefix where the
  Go name is taken (\<^verbatim>\<open>PixelSolveRequest.UserAgent\<close>, \<^verbatim>\<open>PixelSolveResponse.Payload\<close>,
  \<^verbatim>\<open>DynamicScriptResponse.ScriptValues\<close>).
\<close>

record GenerateRequest =
  UserAgent :: string
  Version :: Version
  PageURL :: string
  Abck :: string
  BmSz :: string
  ScriptValues :: string

record GenerateResponse =
  Payload :: string

record PixelSolveRequest =
  pixel_UserAgent :: string
  HtmlVar :: int
  ScriptVar :: string

record PixelSolveResponse =
  pixel_Payload :: string

record DynamicScriptResponse =
  Success :: bool
  Message :: string
  dynamic_ScriptValues :: string

text \<open>
  The fields of \<^verbatim>\<open>*url.URL\<close> that \<^verbatim>\<open>Generate\<close> reads, and \<^verbatim>\<open>(*URL).IsAbs\<close>, which
  reports a non-empty scheme.
\<close>

record URL =
  Scheme :: string
  Host :: string

definition IsAbs :: "URL \<Rightarrow> bool" where
  "IsAbs u = (Scheme u \<noteq> [])"

text \<open>
  The collaborators act on a world \<open>'w\<close> that the model does not look into (the network,
  the cookie jar, the remote service): each takes the world and returns its result with
  the world after the call. \<^verbatim>\<open>DoHttpReqFunc\<close> gets the operation, the URL, the method
  and the body (\<open>None\<close> for a nil reader) and returns the status code, the response body
  and the error; the context argument is only passed on by the source and is left out.
\<close>

type_synonym 'w DoHttpReqFunc =
  "HttpReqOp \<Rightarrow> string \<Rightarrow> string \<Rightarrow> string option \<Rightarrow> 'w \<Rightarrow> (int \<times> string \<times> error option) \<times> 'w"

type_synonym 'w GetCookieFunc = "URL \<Rightarrow> string \<Rightarrow> 'w \<Rightarrow> string \<times> 'w"

text \<open>
  A session: the API key, and what its three methods \<^verbatim>\<open>GenerateSensorData\<close>,
  \<^verbatim>\<open>GeneratePixelPayload\<close> and \<^verbatim>\<open>GetDynamicScriptValues\<close> return. The methods post
  JSON to the remote service through \<^verbatim>\<open>net/http\<close>; the service and the two
  libraries are outside the embedding, so a method is the function from its request to
  its result (\<open>Inl\<close> for the error).
\<close>

record 'w Session =
  apiKey :: string
  GenerateSensorData :: "GenerateRequest \<Rightarrow> 'w \<Rightarrow> (error + GenerateResponse) \<times> 'w"
  GeneratePixelPayload :: "PixelSolveRequest \<Rightarrow> 'w \<Rightarrow> (error + PixelSolveResponse) \<times> 'w"
  GetDynamicScriptValues :: "string \<Rightarrow> 'w \<Rightarrow> (error + DynamicScriptResponse) \<times> 'w"

subsection \<open>The two workers\<close>

text \<open>
  The body of a goroutine, as the tree of its calls to the collaborators: each call
  node holds the arguments of the call and the rest of the body as a function of the
  result. \<open>addError\<close> is the append to \<^verbatim>\<open>errs\<close> under the mutex, \<open>Done\<close> the return
  of the goroutine (every return runs the deferred \<^verbatim>\<open>wg.Done()\<close>), \<open>Crash\<close> a panic
  inside it.
\<close>

datatype proc =
    Done
  | Crash string
  | addError error proc
  | doHttpReq HttpReqOp string string "string option" "int \<times> string \<times> error option \<Rightarrow> proc"
  | getCookie string "string \<Rightarrow> proc"
  | callGeneratePixelPayload PixelSolveRequest "error + PixelSolveResponse \<Rightarrow> proc"
  | callGetDynamicScriptValues string "error + DynamicScriptResponse \<Rightarrow> proc"
  | callGenerateSensorData GenerateRequest "error + GenerateResponse \<Rightarrow> proc"

text \<open>\<^verbatim>\<open>http.MethodGet\<close>, \<^verbatim>\<open>http.MethodPost\<close>, \<^verbatim>\<open>http.StatusOK\<close>, \<^verbatim>\<open>http.StatusNotFound\<close>.\<close>

definition MethodGet :: string where
  "MethodGet = ''GET''"

definition MethodPost :: string where
  "MethodPost = ''POST''"

definition StatusOK :: int where
  "StatusOK = 200"

definition StatusNotFound :: int where
  "StatusNotFound = 404"

text \<open>The goroutine "Solve pixel challenge".\<close>

definition pixelWorker :: "string \<Rightarrow> string \<Rightarrow> proc" where
  "pixelWorker userAgent pageBody =
     (case GetPixelChallengeScriptURL pageBody of
        (ok, scriptUrl, postUrl) \<Rightarrow>
          if \<not> ok then Done
          else case GetPixelChallengeHtmlVar pageBody of
            (htmlVar, Some err) \<Rightarrow> addError err Done
          | (htmlVar, None) \<Rightarrow>
              doHttpReq OpGetPixelChallengeScript scriptUrl MethodGet None
                (\<lambda>(statusCode, scriptBody, err).
                   if err = None \<and> statusCode \<noteq> StatusOK \<and> statusCode = StatusNotFound then Done
                   else
                     case (if err = None \<and> statusCode \<noteq> StatusOK
                           then Some (BadStatusCodeError statusCode) else err) of
                       Some e \<Rightarrow> addError e Done
                     | None \<Rightarrow>
                         (case GetPixelChallengeScriptVar scriptBody of
                            Panic msg \<Rightarrow> Crash msg
                          | Return (scriptVar, Some e) \<Rightarrow> addError e Done
                          | Return (scriptVar, None) \<Rightarrow>
                              callGeneratePixelPayload
                                \<lparr>pixel_UserAgent = userAgent, HtmlVar = htmlVar,
                                 ScriptVar = scriptVar\<rparr>
                                (\<lambda>res. case res of
                                   Inl e \<Rightarrow> addError e Done
                                 | Inr response \<Rightarrow>
                                     doHttpReq OpPostPixelPayload postUrl MethodPost
                                       (Some (pixel_Payload response))
                                       (\<lambda>(statusCode', body', err').
                                          case err' of
                                            Some e \<Rightarrow> addError e Done
                                          | None \<Rightarrow> Done)))))"

text \<open>
  The loop "Generate and post sensor data" from iteration \<open>i\<close> on. The body of the
  POST is \<^verbatim>\<open>fmt.Sprintf(`{"sensor_data":"%s"}`, response.Payload)\<close>: the verb \<^verbatim>\<open>%s\<close>
  writes a string argument as it is.
\<close>

function sensorLoop ::
  "string \<Rightarrow> string \<Rightarrow> Version \<Rightarrow> string \<Rightarrow> string \<Rightarrow> int \<Rightarrow> int \<Rightarrow> proc" where
  \<open>sensorLoop userAgent pageUrl version scriptValues scriptUrl maxTries i =
     (if i < maxTries then
        getCookie ''_abck'' (\<lambda>abck.
          (if version = Version2 then getCookie ''bm_sz'' else (\<lambda>k. k [])) (\<lambda>bmSz.
            callGenerateSensorData
              \<lparr>UserAgent = userAgent, Version = version, PageURL = pageUrl, Abck = abck,
               BmSz = bmSz, ScriptValues = scriptValues\<rparr>
              (\<lambda>res. case res of
                 Inl err \<Rightarrow> addError err Done
               | Inr response \<Rightarrow>
                   doHttpReq OpPostSensorData scriptUrl MethodPost
                     (Some (''{"sensor_data":"'' @ Payload response @ ''"}''))
                     (\<lambda>(statusCode, body, err).
                        case err of
                          Some e \<Rightarrow> addError e Done
                        | None \<Rightarrow>
                            getCookie ''_abck'' (\<lambda>abck'.
                              if IsCookieValid abck' i then Done
                              else sensorLoop userAgent pageUrl version scriptValues scriptUrl
                                     maxTries (i + 1))))))
      else Done)\<close>
  by pat_completeness auto
termination
  by (relation "measure (\<lambda>(userAgent, pageUrl, version, scriptValues, scriptUrl, maxTries, i).
                  nat (maxTries - i))") auto

declare sensorLoop.simps [simp del]

text \<open>The goroutine "Generate _abck"; \<open>u\<close> is the parsed page URL.\<close>

definition sensorWorker :: "string \<Rightarrow> string \<Rightarrow> URL \<Rightarrow> int \<Rightarrow> string \<Rightarrow> proc" where
  "sensorWorker userAgent pageUrl u maxTries pageBody =
     (let scriptPath = GetScriptPath pageBody
      in if scriptPath = [] then Done
         else
           let scriptUrl = Scheme u @ ''://'' @ Host u @ scriptPath
           in doHttpReq OpGetSdkScript scriptUrl MethodGet None
                (\<lambda>(statusCode, scriptBody, err).
                   case (if err = None \<and> statusCode \<noteq> StatusOK
                         then Some (BadStatusCodeError statusCode) else err) of
                     Some e \<Rightarrow> addError e Done
                   | None \<Rightarrow>
                       let version = GetSdkVersion scriptBody
                       in if version = Version2 \<and> \<not> IsScriptStatic scriptBody then
                            callGetDynamicScriptValues scriptBody
                              (\<lambda>res. case res of
                                 Inl e \<Rightarrow> addError e Done
                               | Inr response \<Rightarrow>
                                   sensorLoop userAgent pageUrl version
                                     (if Success response then dynamic_ScriptValues response
                                      else [])
                                     scriptUrl maxTries 0)
                          else sensorLoop userAgent pageUrl version [] scriptUrl maxTries 0))"

subsection \<open>Running the workers\<close>

text \<open>
  What a run records of a call: the arguments and the result. The log is not part of
  the program; it is there to state which calls a run made.
\<close>

datatype event =
    EvDoHttpReq HttpReqOp string string "string option" "int \<times> string \<times> error option"
  | EvGetCookie string string
  | EvGeneratePixelPayload PixelSolveRequest "error + PixelSolveResponse"
  | EvGetDynamicScriptValues string "error + DynamicScriptResponse"
  | EvGenerateSensorData GenerateRequest "error + GenerateResponse"

text \<open>
  The state of a run: the world, the calls made so far, the slice \<^verbatim>\<open>errs\<close>, and the
  message of a panic in a goroutine, which ends the program.
\<close>

record 'w run_state =
  world :: 'w
  calls :: "event list"
  errs :: "error list"
  crashed :: "string option"

text \<open>The collaborators of one call of \<^verbatim>\<open>Generate\<close>.\<close>

record 'w collaborators =
  session :: "'w Session"
  httpFunc :: "'w DoHttpReqFunc"
  cookieFunc :: "'w GetCookieFunc"
  pageURL :: URL

text \<open>
  One step of a goroutine: the next call is made on the world and logged, and the rest
  of the body is returned. A finished body makes no step.
\<close>

primrec step :: "'w collaborators \<Rightarrow> proc \<Rightarrow> 'w run_state \<Rightarrow> proc \<times> 'w run_state" where
  "step c Done st = (Done, st)"
| "step c (Crash msg) st = (Done, st\<lparr>crashed := Some msg\<rparr>)"
| "step c (addError e p) st = (p, st\<lparr>errs := errs st @ [e]\<rparr>)"
| "step c (doHttpReq op url method body k) st =
     (let (res, w) = httpFunc c op url method body (world st)
      in (k res, st\<lparr>world := w, calls := calls st @ [EvDoHttpReq op url method body res]\<rparr>))"
| "step c (getCookie name k) st =
     (let (v, w) = cookieFunc c (pageURL c) name (world st)
      in (k v, st\<lparr>world := w, calls := calls st @ [EvGetCookie name v]\<rparr>))"
| "step c (callGeneratePixelPayload req k) st =
     (let (res, w) = GeneratePixelPayload (session c) req (world st)
      in (k res, st\<lparr>world := w, calls := calls st @ [EvGeneratePixelPayload req res]\<rparr>))"
| "step c (callGetDynamicScriptValues src k) st =
     (let (res, w) = GetDynamicScriptValues (session c) src (world st)
      in (k res, st\<lparr>world := w, calls := calls st @ [EvGetDynamicScriptValues src res]\<rparr>))"
| "step c (callGenerateSensorData req k) st =
     (let (res, w) = GenerateSensorData (session c) req (world st)
      in (k res, st\<lparr>world := w, calls := calls st @ [EvGenerateSensorData req res]\<rparr>))"

text \<open>A goroutine run to its end without interruption.\<close>

primrec run :: "'w collaborators \<Rightarrow> proc \<Rightarrow> 'w run_state \<Rightarrow> 'w run_state" where
  "run c Done = (\<lambda>st. st)"
| "run c (Crash msg) = (\<lambda>st. st\<lparr>crashed := Some msg\<rparr>)"
| "run c (addError e p) = (\<lambda>st. run c p (st\<lparr>errs := errs st @ [e]\<rparr>))"
| "run c (doHttpReq op url method body k) =
     (\<lambda>st. let (res, w) = httpFunc c op url method body (world st)
           in run c (k res)
                (st\<lparr>world := w, calls := calls st @ [EvDoHttpReq op url method body res]\<rparr>))"
| "run c (getCookie name k) =
     (\<lambda>st. let (v, w) = cookieFunc c (pageURL c) name (world st)
           in run c (k v) (st\<lparr>world := w, calls := calls st @ [EvGetCookie name v]\<rparr>))"
| "run c (callGeneratePixelPayload req k) =
     (\<lambda>st. let (res, w) = GeneratePixelPayload (session c) req (world st)
           in run c (k res)
                (st\<lparr>world := w, calls := calls st @ [EvGeneratePixelPayload req res]\<rparr>))"
| "run c (callGetDynamicScriptValues src k) =
     (\<lambda>st. let (res, w) = GetDynamicScriptValues (session c) src (world st)
           in run c (k res)
                (st\<lparr>world := w, calls := calls st @ [EvGetDynamicScriptValues src res]\<rparr>))"
| "run c (callGenerateSensorData req k) =
     (\<lambda>st. let (res, w) = GenerateSensorData (session c) req (world st)
           in run c (k res)
                (st\<lparr>world := w, calls := calls st @ [EvGenerateSensorData req res]\<rparr>))"

text \<open>
  The two goroutines run concurrently. The schedule says which of them makes the next
  step (true for the first); a goroutine that has finished leaves the rest to the other,
  and when the schedule is used up the first runs to its end, then the second. Every
  interleaving of the calls of the two is the run of some schedule. A panic in a
  goroutine ends the program.
\<close>

fun run_par ::
  "'w collaborators \<Rightarrow> bool list \<Rightarrow> proc \<Rightarrow> proc \<Rightarrow> 'w run_state \<Rightarrow> 'w run_state" where
  "run_par c [] p q st =
     (let st' = run c p st in if crashed st' \<noteq> None then st' else run c q st')"
| "run_par c (first # schedule) p q st =
     (if crashed st \<noteq> None then st
      else if first then
        (if p = Done then run c q st
         else case step c p st of (p', st') \<Rightarrow> run_par c schedule p' q st')
      else
        (if q = Done then run c p st
         else case step c q st of (q', st') \<Rightarrow> run_par c schedule p q' st'))"

subsection \<open>Generate\<close>

text \<open>
  \<^verbatim>\<open>Session.Generate\<close>. The two function arguments are \<open>None\<close> for nil. \<open>url_Parse\<close>
  stands for \<^verbatim>\<open>url.Parse\<close> of the standard library, which the model takes as given.
  The result is what the call does (a panic, or the returned error, \<open>None\<close> for nil), the
  world after it and the calls it made.
\<close>

definition Generate ::
  "'w Session \<Rightarrow> (string \<Rightarrow> error + URL) \<Rightarrow> string \<Rightarrow> string \<Rightarrow> 'w DoHttpReqFunc option
     \<Rightarrow> 'w GetCookieFunc option \<Rightarrow> int \<Rightarrow> bool list \<Rightarrow> 'w
     \<Rightarrow> error option outcome \<times> 'w \<times> event list" where
  "Generate sess url_Parse userAgent pageUrl doHttpReqF getCookieF maxTries schedule w =
     (case doHttpReqF of
        None \<Rightarrow> (Panic ''akamai-sdk-go: nil DoHttpReqFunc passed to Generate'', w, [])
      | Some doReq \<Rightarrow>
     (case getCookieF of
        None \<Rightarrow> (Panic ''akamai-sdk-go: nil GetCookieFunc passed to Generate'', w, [])
      | Some getCk \<Rightarrow>
          if maxTries \<le> 0 then (Panic ''akamai-sdk-go: maxTries <= 0'', w, [])
          else case url_Parse pageUrl of
            Inl err \<Rightarrow> (Return (Some err), w, [])
          | Inr u \<Rightarrow>
              if \<not> IsAbs u then (Return (Some ErrInvalidPageURL), w, [])
              else
                let c = \<lparr>session = sess, httpFunc = doReq, cookieFunc = getCk, pageURL = u\<rparr>;
                    ((statusCode, pageBody, err), w1) = doReq OpGetPage pageUrl MethodGet None w;
                    calls1 = [EvDoHttpReq OpGetPage pageUrl MethodGet None
                                (statusCode, pageBody, err)]
                in case (if err = None \<and> statusCode \<noteq> StatusOK
                         then Some (BadStatusCodeError statusCode) else err) of
                     Some e \<Rightarrow>
                       (Return (errors_Join [Some (HttpOpError OpGetPage), Some e]), w1, calls1)
                   | None \<Rightarrow>
                       let st = run_par c schedule
                                  (pixelWorker userAgent pageBody)
                                  (sensorWorker userAgent pageUrl u maxTries pageBody)
                                  \<lparr>world = w1, calls = calls1, errs = [], crashed = None\<rparr>
                       in case crashed st of
                            Some msg \<Rightarrow> (Panic msg, world st, calls st)
                          | None \<Rightarrow>
                              (Return (errors_Join (map Some (errs st))), world st, calls st)))"

subsection \<open>Reading the log of a run\<close>

text \<open>
  The calls that the run of a goroutine adds to the log: what the log holds after the
  run, without the calls that were there before it.
\<close>

definition new_calls :: "'w collaborators \<Rightarrow> proc \<Rightarrow> 'w run_state \<Rightarrow> event list" where
  "new_calls c p st = drop (length (calls st)) (calls (run c p st))"

text \<open>
  The sensor-data POSTs of a log are in order when the calls \<^verbatim>\<open>GenerateSensorData\<close>
  that returned a response and the requests \<^verbatim>\<open>OpPostSensorData\<close> come in pairs: each
  such call is directly followed by a request, this request has the operation
  \<^verbatim>\<open>OpPostSensorData\<close>, goes to \<open>scriptUrl\<close> with the method POST, and its body is the
  literal \<^verbatim>\<open>{"sensor_data":"\<close>, the payload of the response byte for byte, and the
  literal \<^verbatim>\<open>"}\<close>; and no other request of the log has the operation
  \<^verbatim>\<open>OpPostSensorData\<close>. A log that ends on a call that returned a response is not in
  order.
\<close>

fun sensor_posts :: "string \<Rightarrow> event list \<Rightarrow> bool" where
  "sensor_posts scriptUrl [] = True"
| \<open>sensor_posts scriptUrl (EvGenerateSensorData req (Inr response) # es) =
     (case es of
        EvDoHttpReq op url method body res # es' \<Rightarrow>
          op = OpPostSensorData \<and> url = scriptUrl \<and> method = MethodPost
          \<and> body = Some (''{"sensor_data":"'' @ Payload response @ ''"}'')
          \<and> sensor_posts scriptUrl es'
      | _ \<Rightarrow> False)\<close>
| "sensor_posts scriptUrl (EvDoHttpReq op url method body res # es) =
     (op \<noteq> OpPostSensorData \<and> sensor_posts scriptUrl es)"
| "sensor_posts scriptUrl (e # es) = sensor_posts scriptUrl es"

subsection \<open>Example collaborators\<close>

text \<open>
  Collaborators for the concrete runs below. The world counts the calls made. The
  parser knows one absolute and one relative URL; the HTTP function answers the page
  fetch with the status and body it is given, the pixel-script fetch with the given
  status, the SDK-script fetch with a static version-2 script; the cookie
  \<^verbatim>\<open>_abck\<close> carries the stop-signal threshold 0; the payload of the sensor service
  contains a double quote.
\<close>

definition example_url_Parse :: "string \<Rightarrow> error + URL" where
  "example_url_Parse s =
     (if s = ''https://x.example/p'' then Inr \<lparr>Scheme = ''https'', Host = ''x.example''\<rparr>
      else if s = ''/p'' then Inr \<lparr>Scheme = [], Host = []\<rparr>
      else Inl (ExternalError ''parse''))"

definition example_doHttpReq :: "int \<Rightarrow> string \<Rightarrow> int \<Rightarrow> nat DoHttpReqFunc" where
  "example_doHttpReq pageStatus pageBody pixelStatus op url method body w =
     (case op of
        OpGetPage \<Rightarrow> ((pageStatus, pageBody, None), w + 1)
      | OpGetPixelChallengeScript \<Rightarrow> ((pixelStatus, [], None), w + 1)
      | OpGetSdkScript \<Rightarrow> ((200, ''(function a(){})'', None), w + 1)
      | OpPostSensorData \<Rightarrow> ((201, [], None), w + 1)
      | OpPostPixelPayload \<Rightarrow> ((200, [], None), w + 1))"

definition example_getCookie :: "nat GetCookieFunc" where
  "example_getCookie u name w = (if name = ''_abck'' then ''x~0~y'' else ''z'', w + 1)"

definition example_session :: "nat Session" where
  \<open>example_session =
     \<lparr>apiKey = ''key'',
      GenerateSensorData = (\<lambda>req w. (Inr \<lparr>Payload = ''a"b''\<rparr>, w + 1)),
      GeneratePixelPayload = (\<lambda>req w. (Inr \<lparr>pixel_Payload = ''p''\<rparr>, w + 1)),
      GetDynamicScriptValues =
        (\<lambda>src w. (Inr \<lparr>Success = True, Message = [], dynamic_ScriptValues = ''v''\<rparr>, w + 1))\<rparr>\<close>

definition example_collaborators :: "int \<Rightarrow> nat collaborators" where
  "example_collaborators pixelStatus =
     \<lparr>session = example_session, httpFunc = example_doHttpReq 200 [] pixelStatus,
      cookieFunc = example_getCookie,
      pageURL = \<lparr>Scheme = ''https'', Host = ''x.example''\<rparr>\<rparr>"

definition example_start :: "nat run_state" where
  "example_start = \<lparr>world = 0, calls = [], errs = [], crashed = None\<rparr>"

definition example_pixel_page :: string where
  \<open>example_pixel_page = ''<img src="https://x.example/akam/12/abcDEF"> bazadebezolkohpepadr="500"''\<close>

definition example_sensor_page :: string where
  \<open>example_sensor_page = ''<script type="text/javascript" src="/akam/sdk">''\<close>

text \<open>
  A cookie function whose \<^verbatim>\<open>_abck\<close> carries the threshold 1, so that the stop signal
  is not given after the first POST and is given after the second; and a parser that
  knows one URL with a scheme and no host.
\<close>

definition example_getCookie_retry :: "nat GetCookieFunc" where
  "example_getCookie_retry u name w = (if name = ''_abck'' then ''x~1~y'' else ''z'', w + 1)"

definition example_retry_collaborators :: "nat collaborators" where
  "example_retry_collaborators =
     \<lparr>session = example_session, httpFunc = example_doHttpReq 200 [] 200,
      cookieFunc = example_getCookie_retry,
      pageURL = \<lparr>Scheme = ''https'', Host = ''x.example''\<rparr>\<rparr>"

definition example_url_Parse_hostless :: "string \<Rightarrow> error + URL" where
  "example_url_Parse_hostless s =
     (if s = ''https:'' then Inr \<lparr>Scheme = ''https'', Host = []\<rparr>
      else Inl (ExternalError ''parse''))"

section \<open>What the statements speak of\<close>

subsection \<open>The attribute of the pixel challenge\<close>

text \<open>
  A decimal digit, as the class \<^verbatim>\<open>\d\<close> has it.
\<close>

definition digit :: "char \<Rightarrow> bool" where
  "digit c = (48 \<le> (of_char c :: nat) \<and> (of_char c :: nat) \<le> 57)"

text \<open>
  The attribute is written at the start of a text with the value \<open>ds\<close>: the text
  starts with the name, \<^verbatim>\<open>="\<close>, the digits \<open>ds\<close>, of which there is at least one, and
  the closing quote.
\<close>

definition attribute_here :: "string \<Rightarrow> string \<Rightarrow> bool" where
  \<open>attribute_here s ds =
     (ds \<noteq> [] \<and> (\<forall>d\<in>set ds. digit d) \<and> prefix (''bazadebezolkohpepadr="'' @ ds @ ''"'') s)\<close>

text \<open>
  The same, computed: the value of the attribute written at the start of the text, if
  one is. The value is the longest run of digits after the name and \<^verbatim>\<open>="\<close>; it must not
  be empty, and the quote must follow it.
\<close>

definition attribute_value :: "string \<Rightarrow> string option" where
  \<open>attribute_value s =
     (let name = ''bazadebezolkohpepadr="'';
          rest = drop (length name) s;
          ds = takeWhile digit rest
      in if prefix name s \<and> ds \<noteq> [] \<and> prefix ''"'' (dropWhile digit rest)
         then Some ds else None)\<close>

text \<open>
  The attribute written at the byte offset \<open>i\<close> of a page, and the pages where no
  attribute is written at an offset below \<open>i\<close>.
\<close>

definition attribute_at :: "string \<Rightarrow> nat \<Rightarrow> string option" where
  "attribute_at src i = attribute_value (drop i src)"

definition no_attribute_before :: "string \<Rightarrow> nat \<Rightarrow> bool" where
  "no_attribute_before src i = (\<forall>j<i. attribute_at src j = None)"

text \<open>
  The number that a string of decimal digits writes.
\<close>

fun decimal_from :: "nat \<Rightarrow> string \<Rightarrow> nat" where
  "decimal_from n [] = n"
| "decimal_from n (d # ds) = decimal_from (n * 10 + ((of_char d :: nat) - 48)) ds"

definition decimal :: "string \<Rightarrow> nat" where
  "decimal ds = decimal_from 0 ds"

subsection \<open>Hex escapes\<close>

text \<open>
  The characters of a Go string: its runes, as \<^verbatim>\<open>for _, r := range s\<close> yields them
  (\<open>RuneError\<close> for a byte that starts no valid encoding).
\<close>

function runes :: "string \<Rightarrow> nat list" where
  "runes s = (if s = [] then [] else fst (DecodeRune s) # runes (drop (snd (DecodeRune s)) s))"
  by pat_completeness auto
termination
proof (relation "measure length")
  show "wf (measure length)" by simp
next
  fix s :: string
  assume "s \<noteq> []"
  then obtain c cs where s: "s = c # cs" by (cases s) auto
  have "0 < snd (DecodeRune (c # cs))"
    by (simp add: DecodeRune.simps(2) Let_def)
  then show "(drop (snd (DecodeRune s)) s, s) \<in> measure length"
    using s by simp
qed

declare runes.simps [simp del]

text \<open>
  The escaping that the round trip speaks of: each character becomes a backslash, the
  letter \<^verbatim>\<open>x\<close> when \<open>withx\<close> is set (the decoder removes the first \<^verbatim>\<open>x\<close> of a segment),
  and the two hexadecimal digits of its code, with upper-case or lower-case letters.
\<close>

definition hexdigit :: "bool \<Rightarrow> nat \<Rightarrow> char" where
  "hexdigit upper d = (if d < 10 then char_of (48 + d) else char_of ((if upper then 55 else 87) + d))"

definition hex2 :: "bool \<Rightarrow> nat \<Rightarrow> string" where
  "hex2 upper r = [hexdigit upper (r div 16), hexdigit upper (r mod 16)]"

definition hex_segment :: "bool \<Rightarrow> bool \<Rightarrow> nat \<Rightarrow> string" where
  "hex_segment upper withx r = (if withx then ''x'' else []) @ hex2 upper r"

definition hex_escape :: "bool \<Rightarrow> bool \<Rightarrow> nat list \<Rightarrow> string" where
  "hex_escape upper withx rs = concat (map (\<lambda>r. CHR 0x5C # hex_segment upper withx r) rs)"

section \<open>Properties of the library models\<close>

lemma split_go_last: "c \<notin> set f \<Longrightarrow> split_go [c] acc f = [rev acc @ f]"
  by (induction f arbitrary: acc) auto

lemma split_go_field:
  "c \<notin> set f \<Longrightarrow> split_go [c] acc (f @ c # rest) = (rev acc @ f) # split_go [c] [] rest"
  by (induction f arbitrary: acc) auto

text \<open>Splitting on a byte recovers the fields that were joined with it.\<close>

lemma Split_Join:
  "fs \<noteq> [] \<Longrightarrow> \<forall>f\<in>set fs. c \<notin> set f \<Longrightarrow> Split (Join fs [c]) [c] = fs"
proof (induction fs "[c]" rule: Join.induct)
  case 1
  then show ?case by simp
next
  case (2 x)
  then show ?case by (simp add: Split_def split_go_last)
next
  case (3 x y ys)
  then show ?case by (simp add: Split_def split_go_field)
qed

lemmas strconv_defs = Atoi_def ParseInt_def ParseUint_def digit_val_def Let_def

section \<open>Properties of the decoder and the matcher\<close>

lemma DecodeRune_width_pos: "s \<noteq> [] \<Longrightarrow> 0 < snd (DecodeRune s)"
  by (cases s) (simp_all add: DecodeRune.simps(2) Let_def)

lemma DecodeRune_ascii: "(of_char x :: nat) < 128 \<Longrightarrow> DecodeRune (x # xs) = (of_char x, 1)"
  by (simp add: DecodeRune.simps(2))

lemma DecodeRune_invalid_lead:
  "128 \<le> (of_char x :: nat) \<Longrightarrow> (of_char x :: nat) < 194 \<or> 244 < (of_char x :: nat)
   \<Longrightarrow> DecodeRune (x # xs) = (RuneError, 1)"
  by (auto simp: DecodeRune.simps(2))

lemma DecodeRune_two:
  assumes "194 \<le> (of_char x :: nat)" and "(of_char x :: nat) < 224"
  shows "DecodeRune (x # xs) =
           (if xs = [] \<or> (of_char (hd xs) :: nat) < 128 \<or> 191 < (of_char (hd xs) :: nat)
            then (RuneError, 1)
            else ((of_char x mod 32) * 64 + of_char (hd xs) mod 64, 2))"
  using assms by (cases xs) (simp_all add: DecodeRune.simps(2) Let_def)

lemma DecodeRune_three:
  assumes "224 \<le> (of_char x :: nat)" and "(of_char x :: nat) < 240"
  shows "DecodeRune (x # xs) = (RuneError, 1)
         \<or> (snd (DecodeRune (x # xs)) = 3 \<and> 2048 \<le> fst (DecodeRune (x # xs)))"
proof -
  let ?p = "of_char x :: nat"
  let ?b = "of_char (xs ! 0) :: nat"
  have m16: "?p \<noteq> 224 \<Longrightarrow> 1 \<le> ?p mod 16" using assms by presburger
  have b64: "160 \<le> ?b \<Longrightarrow> ?b \<le> 191 \<Longrightarrow> 32 \<le> ?b mod 64" by presburger
  show ?thesis
  proof (cases "?p = 224")
    case True
    then show ?thesis using b64 by (auto simp: DecodeRune.simps(2) Let_def not_less not_le)
  next
    case False
    with assms m16 show ?thesis by (auto simp: DecodeRune.simps(2) Let_def not_less not_le)
  qed
qed

lemma DecodeRune_four:
  assumes "240 \<le> (of_char x :: nat)" and "(of_char x :: nat) \<le> 244"
  shows "DecodeRune (x # xs) = (RuneError, 1)
         \<or> (snd (DecodeRune (x # xs)) = 4 \<and> 65536 \<le> fst (DecodeRune (x # xs)))"
proof -
  let ?p = "of_char x :: nat"
  let ?b = "of_char (xs ! 0) :: nat"
  have m8: "?p \<noteq> 240 \<Longrightarrow> 1 \<le> ?p mod 8" using assms by presburger
  have b64: "144 \<le> ?b \<Longrightarrow> ?b \<le> 191 \<Longrightarrow> 16 \<le> ?b mod 64" by presburger
  show ?thesis
  proof (cases "?p = 240")
    case True
    then show ?thesis using b64 by (auto simp: DecodeRune.simps(2) Let_def not_less not_le)
  next
    case False
    with assms m8 show ?thesis by (auto simp: DecodeRune.simps(2) Let_def not_less not_le)
  qed
qed

lemma DecodeRune_non_ascii:
  assumes "128 \<le> (of_char x :: nat)"
  shows "128 \<le> fst (DecodeRune (x # xs))"
proof -
  let ?p = "of_char x :: nat"
  consider "?p < 194 \<or> 244 < ?p" | "194 \<le> ?p" "?p < 224" | "224 \<le> ?p" "?p < 240"
    | "240 \<le> ?p" "?p \<le> 244"
    by linarith
  then show ?thesis
  proof cases
    case 1
    with assms show ?thesis by (simp add: DecodeRune_invalid_lead RuneError_def)
  next
    case 2
    then have "2 \<le> ?p mod 32" by presburger
    then have "128 \<le> ?p mod 32 * 64" by simp
    then show ?thesis by (simp add: DecodeRune_two [OF 2] RuneError_def)
  next
    case 3
    from DecodeRune_three [OF 3, of xs] show ?thesis by (auto simp: RuneError_def)
  next
    case 4
    from DecodeRune_four [OF 4, of xs] show ?thesis by (auto simp: RuneError_def)
  qed
qed

lemma threads_CharClass_ascii:
  assumes "(of_char c :: nat) < 128"
  shows "threads n (CharClass [(of_char c, of_char c)]) (s, caps)
         = (if s \<noteq> [] \<and> hd s = c then [(tl s, caps)] else [])"
proof (cases s)
  case Nil
  then show ?thesis by (simp add: threads.simps)
next
  case (Cons x xs)
  show ?thesis
  proof (cases "(of_char x :: nat) < 128")
    case True
    then show ?thesis using Cons
      by (auto simp: threads.simps DecodeRune_ascii in_class_def drop_Suc)
  next
    case False
    then have "128 \<le> fst (DecodeRune (x # xs))"
      by (simp add: DecodeRune_non_ascii)
    moreover from False assms have "x \<noteq> c" by auto
    ultimately show ?thesis using Cons assms
      by (auto simp: threads.simps(2) in_class_def split: prod.splits)
  qed
qed

lemma threads_Literal:
  "\<forall>c\<in>set L. (of_char c :: nat) < 128 \<Longrightarrow>
   threads n (Literal L) (s, caps) = (if prefix L s then [(drop (length L) s, caps)] else [])"
proof (induction L arbitrary: s)
  case Nil
  then show ?case by (simp add: threads.simps Literal.simps)
next
  case (Cons c L)
  then have c: "(of_char c :: nat) < 128" and L: "\<forall>c\<in>set L. (of_char c :: nat) < 128"
    by simp_all
  show ?case
  proof (cases s)
    case Nil
    then show ?thesis by (simp add: threads.simps(5) Literal.simps threads_CharClass_ascii [OF c])
  next
    case (Cons x xs)
    then show ?thesis
      by (simp add: threads.simps(5) Literal.simps threads_CharClass_ascii [OF c] Cons.IH [OF L])
  qed
qed

lemma search_Nil:
  "threads n re (s, []) = [] \<Longrightarrow>
   search n re s = (if s = [] then None else search n re (drop (snd (DecodeRune s)) s))"
  by (subst search.simps) simp

lemma search_Cons:
  "threads n re (s, []) = st # sts \<Longrightarrow> search n re s = Some (n - length s, st)"
  by (subst search.simps) simp

lemma search_BeginText_later:
  "length s < n \<Longrightarrow> search n (Concat BeginText r) s = None"
proof (induction n "Concat BeginText r" s rule: search.induct)
  case (1 n s)
  have t: "threads n (Concat BeginText r) (s, []) = []"
    using 1(2) by (simp add: threads.simps)
  show ?case
  proof (cases "s = []")
    case True
    with search_Nil [OF t] show ?thesis by simp
  next
    case False
    have "length (drop (snd (DecodeRune s)) s) < n" using 1(2) by simp
    from 1(1) [OF t False this] search_Nil [OF t] False show ?thesis by simp
  qed
qed

lemma search_BeginText:
  "search (length s) (Concat BeginText r) s
   = (case threads (length s) r (s, []) of [] \<Rightarrow> None | st # sts \<Rightarrow> Some (0, st))"
proof (cases "threads (length s) r (s, [])")
  case Nil
  then have t: "threads (length s) (Concat BeginText r) (s, []) = []"
    by (simp add: threads.simps)
  show ?thesis
  proof (cases "s = []")
    case True
    with search_Nil [OF t] Nil show ?thesis by simp
  next
    case False
    then have "length (drop (snd (DecodeRune s)) s) < length s"
      using DecodeRune_width_pos [OF False] by simp
    from search_BeginText_later [OF this] search_Nil [OF t] False Nil show ?thesis by simp
  qed
next
  case (Cons st sts)
  then have "threads (length s) (Concat BeginText r) (s, []) = st # sts"
    by (simp add: threads.simps)
  from search_Cons [OF this] Cons show ?thesis by simp
qed

lemma Match_anchored_Literal:
  assumes "\<forall>c\<in>set L. (of_char c :: nat) < 128"
  shows "Match \<lparr>prog = Seq [BeginText, Literal L], numSubexp = k\<rparr> src \<longleftrightarrow> prefix L src"
  by (simp add: Match_def search_BeginText threads.simps(5) threads.simps(1)
        threads_Literal [OF assms])

lemma Match_anchored_Literal_then:
  assumes "\<forall>c\<in>set L. (of_char c :: nat) < 128"
    and "Match \<lparr>prog = Concat BeginText (Concat (Literal L) r), numSubexp = k\<rparr> src"
  shows "prefix L src"
  using assms(2)
  by (auto simp: Match_def search_BeginText threads.simps(5) threads_Literal [OF assms(1)]
        split: list.splits if_splits)

lemma GetSdkVersion_prefix:
  "GetSdkVersion src =
     (if prefix ''var _acxj'' src then Version175
      else if prefix ''(function'' src then Version2 else Version17)"
proof -
  have "Match version175expr src \<longleftrightarrow> prefix ''var _acxj'' src"
    unfolding version175expr_def by (rule Match_anchored_Literal) simp
  moreover have "Match version2expr src \<longleftrightarrow> prefix ''(function'' src"
    unfolding version2expr_def by (rule Match_anchored_Literal) simp
  ultimately show ?thesis by (simp add: GetSdkVersion_def)
qed

lemma IsScriptStatic_prefix: "IsScriptStatic src \<Longrightarrow> prefix ''(function '' src"
  unfolding IsScriptStatic_def staticScriptExpr_def Seq.simps
  by (rule Match_anchored_Literal_then) simp_all

lemma search_thread:
  "search n re s = Some m \<Longrightarrow> \<exists>s'. snd m \<in> set (threads n re (s', []))"
proof (induction n re s rule: search.induct)
  case (1 n re s)
  show ?case
  proof (cases "threads n re (s, [])")
    case Nil
    show ?thesis
    proof (cases "s = []")
      case True
      with search_Nil [OF Nil] 1(2) show ?thesis by simp
    next
      case False
      with search_Nil [OF Nil] 1(2) have "search n re (drop (snd (DecodeRune s)) s) = Some m"
        by simp
      from 1(1) [OF Nil False this] show ?thesis .
    qed
  next
    case (Cons st sts)
    from search_Cons [OF Cons] 1(2) have "snd m = st" by auto
    with Cons have "snd m \<in> set (threads n re (s, []))" by simp
    then show ?thesis by blast
  qed
qed

lemma threads_Concat_iff:
  "st' \<in> set (threads n (Concat a b) st)
   \<longleftrightarrow> (\<exists>mid\<in>set (threads n a st). st' \<in> set (threads n b mid))"
  by (auto simp: threads.simps(5))

lemma threads_CharClass_progress:
  assumes "st' \<in> set (threads n (CharClass cls) st)"
  shows "length (fst st') < length (fst st)"
proof -
  obtain r w where d: "DecodeRune (fst st) = (r, w)" by (cases "DecodeRune (fst st)")
  from assms have ne: "fst st \<noteq> []" and st': "st' = (drop w (fst st), snd st)"
    by (auto simp: threads.simps(2) d split: if_splits)
  from DecodeRune_width_pos [OF ne] d have "0 < w" by simp
  with ne st' show ?thesis by simp
qed

lemma threads_CharClass_caps:
  "st' \<in> set (threads n (CharClass cls) st) \<Longrightarrow> snd st' = snd st"
  by (auto simp: threads.simps(2) Let_def split: if_splits prod.splits)

lemma threads_Literal_caps:
  "st' \<in> set (threads n (Literal L) st) \<Longrightarrow> snd st' = snd st"
proof (induction L arbitrary: st)
  case Nil
  then show ?case by (simp add: threads.simps(1) Literal.simps)
next
  case (Cons c L)
  then obtain mid where "mid \<in> set (threads n (CharClass [(of_char c, of_char c)]) st)"
    and "st' \<in> set (threads n (Literal L) mid)"
    by (auto simp: threads_Concat_iff Literal.simps)
  with Cons.IH [of mid] threads_CharClass_caps [of mid] show ?case by simp
qed

lemma threads_Plus_progress:
  assumes "st' \<in> set (threads n (Plus greedy (CharClass cls)) st)"
  shows "length (fst st') < length (fst st)"
proof -
  from assms obtain mid where m: "mid \<in> set (threads n (CharClass cls) st)"
    and s: "st' \<in> set (threads n (Star greedy (CharClass cls)) mid)"
    by (auto simp: Plus_def threads_Concat_iff)
  from threads_CharClass_progress [OF m] threads_length [OF s] show ?thesis by simp
qed

lemma threads_Capture_Plus_Literal:
  assumes "st' \<in> set (threads n (Concat (Capture i (Plus greedy (CharClass cls)))
                                   (Concat (Literal L) EmptyMatch)) st)"
  shows "\<exists>cap. map_of (snd st') i = Some cap \<and> cap \<noteq> []"
proof -
  from assms obtain mid where m: "mid \<in> set (threads n (Capture i (Plus greedy (CharClass cls))) st)"
    and s: "st' \<in> set (threads n (Concat (Literal L) EmptyMatch) mid)"
    by (auto simp: threads_Concat_iff)
  from s have "st' \<in> set (threads n (Literal L) mid)"
    by (auto simp: threads_Concat_iff threads.simps(1))
  then have caps: "snd st' = snd mid" by (rule threads_Literal_caps)
  from m obtain x where x: "x \<in> set (threads n (Plus greedy (CharClass cls)) st)"
    and mid: "mid = (fst x, (i, take (length (fst st) - length (fst x)) (fst st)) # snd x)"
    by (auto simp: threads.simps(6))
  from threads_Plus_progress [OF x]
  have "take (length (fst st) - length (fst x)) (fst st) \<noteq> []" by auto
  with caps mid show ?thesis by simp
qed

lemma FindSubmatch_scriptPathExpr:
  "FindSubmatch scriptPathExpr src = []
   \<or> (\<exists>whole cap. FindSubmatch scriptPathExpr src = [whole, cap] \<and> cap \<noteq> [])"
proof (cases "search (length src) (prog scriptPathExpr) src")
  case None
  then show ?thesis by (simp add: FindSubmatch_def)
next
  case (Some m)
  from search_thread [OF Some] obtain s' where
    "snd m \<in> set (threads (length src) (prog scriptPathExpr) (s', []))" ..
  then obtain mid where
    \<open>snd m \<in> set (threads (length src)
        (Concat (Capture 1 (Plus True (CharClass ([(45, 45), (47, 47)] @ perl_w_fold))))
           (Concat (Literal ''">'') EmptyMatch)) mid)\<close>
    by (auto simp: scriptPathExpr_def threads_Concat_iff)
  from threads_Capture_Plus_Literal [OF this]
  obtain cap where "map_of (snd (snd m)) 1 = Some cap" and "cap \<noteq> []" by blast
  with Some show ?thesis
    by (simp add: FindSubmatch_def submatches_def scriptPathExpr_def Let_def)
qed

section \<open>The stop signal: properties\<close>

text \<open>
  C1 (as amended). Let the cookie value consist of the fields \<open>fs\<close> separated by
  \<open>~\<close>. \<open>IsCookieValid\<close> is false when there are fewer than two fields and when the
  second field does not parse as an integer; when it parses as a threshold other than
  \<open>-1\<close>, the result is true exactly when the request count has reached the threshold;
  a threshold of \<open>-1\<close> is the marker of "no stop signal" and gives false.
\<close>

theorem IsCookieValid_fields:
  assumes "fs \<noteq> []" and "\<forall>f\<in>set fs. CHR ''~'' \<notin> set f"
  shows "IsCookieValid (Join fs ''~'') n \<longleftrightarrow>
           (2 \<le> length fs \<and> snd (Atoi (fs ! 1)) = None
            \<and> fst (Atoi (fs ! 1)) \<noteq> - 1 \<and> fst (Atoi (fs ! 1)) \<le> n)"
  using Split_Join [OF assms]
  by (auto simp: IsCookieValid_def Let_def split: prod.splits)

theorem IsCookieValid_fields_witness:
  "IsCookieValid ''0~1~x'' 1 \<and> \<not> IsCookieValid ''0~1~x'' 0
   \<and> \<not> IsCookieValid ''0~z~x'' 5 \<and> \<not> IsCookieValid ''0'' 5"
  using IsCookieValid_fields [of "[''0'', ''1'', ''x'']" 1]
    IsCookieValid_fields [of "[''0'', ''1'', ''x'']" 0]
    IsCookieValid_fields [of "[''0'', ''z'', ''x'']" 5]
    IsCookieValid_fields [of "[''0'']" 5]
  by (simp add: strconv_defs)

text \<open>
  The claim as written fails at the threshold \<open>-1\<close>: the second field parses, the
  request count 0 is not below it, and the result is false.
\<close>

theorem IsCookieValid_threshold_counterexample:
  "Split ''0~-1~x'' ''~'' = [''0'', ''-1'', ''x''] \<and> Atoi ''-1'' = (- 1, None)
   \<and> \<not> (IsCookieValid ''0~-1~x'' 0 \<longleftrightarrow> (0::int) \<ge> - 1)"
  by (simp add: IsCookieValid_def Split_def strconv_defs)

lemmas regexp_eval = threads.simps search.simps allMatches.simps DecodeRune.simps(2)
  Literal.simps LiteralFold.simps Plus_def perl_d_def perl_w_def perl_w_fold_def
  FindSubmatch_def FindAllSubmatch_def Match_def submatches_def in_class_def simpleFold_def
  Let_def

section \<open>Versions and script shapes: properties\<close>

text \<open>
  C4 (as amended). \<open>GetSdkVersion\<close> returns one of exactly three tags, the strings
  \<open>1.7\<close>, \<open>1.75\<close> and \<open>2\<close> (the constant \<open>Version2\<close>): \<open>1.75\<close> when the source starts
  with the 1.75 marker \<open>var _acxj\<close>, otherwise \<open>2\<close> when it starts with \<open>(function\<close>,
  and otherwise the oldest version \<open>1.7\<close>. Matching either anchored pattern is starting
  with its literal.
\<close>

theorem GetSdkVersion_rule:
  "GetSdkVersion src =
     (if prefix ''var _acxj'' src then ''1.75''
      else if prefix ''(function'' src then ''2'' else ''1.7'')
   \<and> (Match version175expr src \<longleftrightarrow> prefix ''var _acxj'' src)
   \<and> (Match version2expr src \<longleftrightarrow> prefix ''(function'' src)
   \<and> GetSdkVersion src \<in> {Version17, Version175, Version2}"
proof -
  have "Match version175expr src \<longleftrightarrow> prefix ''var _acxj'' src"
    unfolding version175expr_def by (rule Match_anchored_Literal) simp
  moreover have "Match version2expr src \<longleftrightarrow> prefix ''(function'' src"
    unfolding version2expr_def by (rule Match_anchored_Literal) simp
  ultimately show ?thesis
    by (simp add: GetSdkVersion_def Version17_def Version175_def Version2_def)
qed

theorem GetSdkVersion_rule_witness:
  "GetSdkVersion ''var _acxj=1;'' = ''1.75'' \<and> GetSdkVersion ''(function(){})'' = ''2''
   \<and> GetSdkVersion ''var a;'' = ''1.7''"
  using GetSdkVersion_rule [of "''var _acxj=1;''"] GetSdkVersion_rule [of "''(function(){})''"]
    GetSdkVersion_rule [of "''var a;''"]
  by simp

text \<open>
  The claim as written names the tag \<open>2.0\<close>; for a source that starts with
  \<open>(function\<close> the result is the string \<open>2\<close>, which is none of \<open>1.7\<close>, \<open>1.75\<close>, \<open>2.0\<close>.
\<close>

theorem GetSdkVersion_tag_counterexample:
  "GetSdkVersion ''(function(){})'' = ''2''
   \<and> GetSdkVersion ''(function(){})'' \<notin> {''1.7'', ''1.75'', ''2.0''}"
  by (simp add: GetSdkVersion_prefix Version2_def)

text \<open>
  C9. A script of the static shape is of version 2: whenever \<open>IsScriptStatic\<close> holds,
  the source matches the 2.0 pattern and not the 1.75 pattern, and \<open>GetSdkVersion\<close>
  returns \<open>Version2\<close>.
\<close>

theorem static_script_is_Version2:
  assumes "IsScriptStatic src"
  shows "GetSdkVersion src = Version2 \<and> Match version2expr src \<and> \<not> Match version175expr src"
proof -
  from IsScriptStatic_prefix [OF assms] obtain rest where src: "src = ''(function '' @ rest"
    by (auto simp: prefix_def)
  have "Match version175expr src \<longleftrightarrow> prefix ''var _acxj'' src"
    unfolding version175expr_def by (rule Match_anchored_Literal) simp
  moreover have "Match version2expr src \<longleftrightarrow> prefix ''(function'' src"
    unfolding version2expr_def by (rule Match_anchored_Literal) simp
  ultimately show ?thesis using src by (simp add: GetSdkVersion_def)
qed

theorem static_script_is_Version2_witness:
  "IsScriptStatic ''(function a(){})'' \<and> GetSdkVersion ''(function a(){})'' = Version2"
proof -
  have s: "IsScriptStatic ''(function a(){})''"
    by (simp add: IsScriptStatic_def staticScriptExpr_def regexp_eval)
  from static_script_is_Version2 [OF s] s show ?thesis by simp
qed

section \<open>Markup extraction: properties\<close>

text \<open>
  C10. The two variants of \<open>GetScriptPath\<close> agree on every input: the first reports
  \<open>ok\<close> exactly when the second returns a non-empty string, and they return the same
  path (the empty string when the pattern does not match).
\<close>

theorem GetScriptPath_variants_agree:
  "fst (GetScriptPath_ok src) = (GetScriptPath src \<noteq> [])
   \<and> snd (GetScriptPath_ok src) = GetScriptPath src"
  using FindSubmatch_scriptPathExpr [of src]
  by (auto simp: GetScriptPath_ok_def GetScriptPath_def)

theorem GetScriptPath_variants_agree_witness:
  \<open>GetScriptPath ''<script type="text/javascript" async src="/a_b/c-D">'' = ''/a_b/c-D''
   \<and> GetScriptPath_ok ''<script type="text/javascript" async src="/a_b/c-D">''
       = (True, ''/a_b/c-D'')
   \<and> GetScriptPath_ok ''<script src="/a">'' = (False, [])\<close>
proof -
  have a: \<open>GetScriptPath ''<script type="text/javascript" async src="/a_b/c-D">'' = ''/a_b/c-D''\<close>
    by (simp add: GetScriptPath_def scriptPathExpr_def regexp_eval)
  have b: \<open>GetScriptPath ''<script src="/a">'' = []\<close>
    by (simp add: GetScriptPath_def scriptPathExpr_def regexp_eval)
  from a b
    GetScriptPath_variants_agree [of \<open>''<script type="text/javascript" async src="/a_b/c-D">''\<close>]
    GetScriptPath_variants_agree [of \<open>''<script src="/a">''\<close>]
  show ?thesis by (simp add: prod_eq_iff)
qed

text \<open>
  The threads of the pattern \<^verbatim>\<open>bazadebezolkohpepadr="(\d+)"\<close> at a position: there
  is one exactly when the attribute is written there with digits, and it has captured
  them.
\<close>

lemma threads_CharClass_digit:
  "threads n (CharClass perl_d) (s, caps)
   = (if s \<noteq> [] \<and> digit (hd s) then [(tl s, caps)] else [])"
proof (cases s)
  case Nil
  then show ?thesis by (simp add: threads.simps)
next
  case (Cons x xs)
  show ?thesis
  proof (cases "(of_char x :: nat) < 128")
    case True
    then show ?thesis using Cons
      by (auto simp: threads.simps DecodeRune_ascii in_class_def perl_d_def digit_def drop_Suc)
  next
    case False
    then have "128 \<le> fst (DecodeRune (x # xs))"
      by (simp add: DecodeRune_non_ascii)
    moreover from False have "\<not> digit x" by (simp add: digit_def)
    ultimately show ?thesis using Cons
      by (auto simp: threads.simps(2) in_class_def perl_d_def split: prod.splits)
  qed
qed

lemma threads_Star_digits_sound:
  "st \<in> set (threads n (Star g (CharClass perl_d)) (s, c))
   \<Longrightarrow> \<exists>ds. (\<forall>d\<in>set ds. digit d) \<and> s = ds @ fst st \<and> snd st = c"
proof (induction s arbitrary: st)
  case Nil
  then show ?case
    by (subst (asm) threads.simps(8))
      (auto simp: threads_CharClass_digit Let_def split: if_splits)
next
  case (Cons x xs)
  from Cons.prems consider "st = (x # xs, c)"
    | "digit x" "st \<in> set (threads n (Star g (CharClass perl_d)) (xs, c))"
    by (subst (asm) threads.simps(8))
      (auto simp: threads_CharClass_digit Let_def split: if_splits)
  then show ?case
  proof cases
    case 1
    then show ?thesis by (intro exI [of _ "[]"]) simp
  next
    case 2
    from Cons.IH [OF 2(2)] obtain ds where "\<forall>d\<in>set ds. digit d" "xs = ds @ fst st" "snd st = c"
      by blast
    with 2(1) show ?thesis by (intro exI [of _ "x # ds"]) simp
  qed
qed

lemma threads_Star_digits_complete:
  "\<forall>d\<in>set ds. digit d \<Longrightarrow> (rest, c) \<in> set (threads n (Star g (CharClass perl_d)) (ds @ rest, c))"
proof (induction ds)
  case Nil
  show ?case by (subst threads.simps(8)) (simp add: Let_def)
next
  case (Cons d ds)
  then have "(rest, c) \<in> set (threads n (Star g (CharClass perl_d)) (ds @ rest, c))" by simp
  with Cons.prems show ?case
    by (subst threads.simps(8)) (cases g, simp_all add: threads_CharClass_digit Let_def)
qed

lemma threads_Plus_digits_iff:
  "st \<in> set (threads n (Plus g (CharClass perl_d)) (s, c))
   \<longleftrightarrow> (\<exists>ds. ds \<noteq> [] \<and> (\<forall>d\<in>set ds. digit d) \<and> s = ds @ fst st \<and> snd st = c)"
proof
  assume "st \<in> set (threads n (Plus g (CharClass perl_d)) (s, c))"
  then have ne: "s \<noteq> []" and d: "digit (hd s)"
    and st: "st \<in> set (threads n (Star g (CharClass perl_d)) (tl s, c))"
    by (auto simp: Plus_def threads_Concat_iff threads_CharClass_digit split: if_splits)
  from threads_Star_digits_sound [OF st] obtain ds where
    "\<forall>d\<in>set ds. digit d" "tl s = ds @ fst st" "snd st = c" by blast
  with ne d show "\<exists>ds. ds \<noteq> [] \<and> (\<forall>d\<in>set ds. digit d) \<and> s = ds @ fst st \<and> snd st = c"
    by (intro exI [of _ "hd s # ds"]) (cases s, auto)
next
  assume "\<exists>ds. ds \<noteq> [] \<and> (\<forall>d\<in>set ds. digit d) \<and> s = ds @ fst st \<and> snd st = c"
  then obtain d ds where s: "s = (d # ds) @ fst st" and dd: "digit d" "\<forall>d\<in>set ds. digit d"
    and c: "snd st = c"
    by (metis list.exhaust list.set_intros(1) list.set_intros(2))
  from threads_Star_digits_complete [OF dd(2), of "fst st" c n g] c
  have "st \<in> set (threads n (Star g (CharClass perl_d)) (ds @ fst st, c))"
    by (cases st) simp
  with s dd(1) show "st \<in> set (threads n (Plus g (CharClass perl_d)) (s, c))"
    by (simp add: Plus_def threads_Concat_iff threads_CharClass_digit)
qed

lemma not_digit_quote: "\<not> digit (CHR 0x22)"
  by (simp add: digit_def)

lemma attribute_here_unique:
  assumes "attribute_here s ds" and "attribute_here s ds'"
  shows "ds = ds'"
proof -
  from assms obtain r r' where \<open>ds @ CHR 0x22 # r = ds' @ CHR 0x22 # r'\<close>
    and d: "\<forall>d\<in>set ds. digit d" "\<forall>d\<in>set ds'. digit d"
    by (auto simp: attribute_here_def prefix_def)
  then obtain us where "ds = ds' @ us \<and> us @ CHR 0x22 # r = CHR 0x22 # r'
      \<or> ds @ us = ds' \<and> CHR 0x22 # r = us @ CHR 0x22 # r'"
    by (auto simp: append_eq_append_conv2)
  then show ?thesis
  proof
    assume a: "ds = ds' @ us \<and> us @ CHR 0x22 # r = CHR 0x22 # r'"
    show ?thesis
    proof (cases us)
      case Nil
      with a show ?thesis by simp
    next
      case (Cons u us')
      with a have "u = CHR 0x22" and "u \<in> set ds" by auto
      with d(1) not_digit_quote show ?thesis by auto
    qed
  next
    assume a: "ds @ us = ds' \<and> CHR 0x22 # r = us @ CHR 0x22 # r'"
    show ?thesis
    proof (cases us)
      case Nil
      with a show ?thesis by simp
    next
      case (Cons u us')
      with a have "u = CHR 0x22" and "u \<in> set ds'" by auto
      with d(2) not_digit_quote show ?thesis by auto
    qed
  qed
qed

lemma threads_pixelHtmlExpr:
  \<open>st \<in> set (threads n (prog pixelHtmlExpr) (s, []))
   \<longleftrightarrow> (\<exists>ds. attribute_here s ds
          \<and> st = (drop (length (''bazadebezolkohpepadr="'' @ ds @ ''"'')) s, [(1, ds)]))\<close>
proof -
  let ?L = \<open>''bazadebezolkohpepadr="''\<close>
  have L: "\<forall>c\<in>set ?L. (of_char c :: nat) < 128" by simp
  have Q: \<open>\<forall>c\<in>set ''"''. (of_char c :: nat) < 128\<close> by simp
  have lit: \<open>threads n (Literal ''"'') (x, c)
             = (if prefix ''"'' x then [(drop 1 x, c)] else [])\<close> for x c
    using threads_Literal [OF Q, of n x c] by simp
  show ?thesis
  proof
    assume \<open>st \<in> set (threads n (prog pixelHtmlExpr) (s, []))\<close>
    then have \<open>\<exists>m1\<in>set (threads n (Literal ?L) (s, [])).
             \<exists>m2\<in>set (threads n (Capture 1 (Plus True (CharClass perl_d))) m1).
             \<exists>m3\<in>set (threads n (Literal ''"'') m2). st = m3\<close>
      by (simp add: pixelHtmlExpr_def threads_Concat_iff threads.simps(1))
    then obtain m1 m2 m3 where
      m1: "m1 \<in> set (threads n (Literal ?L) (s, []))"
      and m2: "m2 \<in> set (threads n (Capture 1 (Plus True (CharClass perl_d))) m1)"
      and m3: \<open>m3 \<in> set (threads n (Literal ''"'') m2)\<close>
      and st: "st = m3"
      by blast
    from m1 have p: "prefix ?L s" and m1': "m1 = (drop (length ?L) s, [])"
      by (auto simp: threads_Literal [OF L] split: if_splits)
    from m2 obtain x where x: "x \<in> set (threads n (Plus True (CharClass perl_d)) m1)"
      and m2': "m2 = (fst x, (1, take (length (fst m1) - length (fst x)) (fst m1)) # snd x)"
      by (auto simp: threads.simps(6))
    from x obtain ds where ds: "ds \<noteq> []" "\<forall>d\<in>set ds. digit d"
      and split: "drop (length ?L) s = ds @ fst x" and sx: "snd x = []"
      unfolding m1' threads_Plus_digits_iff by auto
    from m1' split have m1'': "fst m1 = ds @ fst x" by simp
    from m2' sx have m2'': "m2 = (fst x, [(1, ds)])" unfolding m1'' by simp
    from m3 have q: \<open>prefix ''"'' (fst x)\<close> and m3': "m3 = (drop 1 (fst x), [(1, ds)])"
      unfolding m2'' by (auto simp: lit split: if_splits)
    from p split have s: "s = ?L @ ds @ fst x"
      by (metis append_take_drop_id prefix_def append_eq_conv_conj)
    with q obtain r where r: \<open>s = ?L @ ds @ ''"'' @ r\<close> and fx: \<open>fst x = ''"'' @ r\<close>
      by (auto simp: prefix_def)
    have "attribute_here s ds"
      unfolding attribute_here_def using ds r by (auto simp: prefix_def)
    moreover have \<open>st = (drop (length (?L @ ds @ ''"'')) s, [(1, ds)])\<close>
      unfolding st m3' fx by (subst r) simp
    ultimately show \<open>\<exists>ds. attribute_here s ds
          \<and> st = (drop (length (?L @ ds @ ''"'')) s, [(1, ds)])\<close>
      by blast
  next
    assume \<open>\<exists>ds. attribute_here s ds
          \<and> st = (drop (length (?L @ ds @ ''"'')) s, [(1, ds)])\<close>
    then obtain ds r where ds: "ds \<noteq> []" "\<forall>d\<in>set ds. digit d"
      and r: \<open>s = ?L @ ds @ ''"'' @ r\<close>
      and st: \<open>st = (drop (length (?L @ ds @ ''"'')) s, [(1, ds)])\<close>
      by (auto simp: attribute_here_def prefix_def)
    have st': "st = (r, [(1, ds)])" unfolding st by (subst r) simp
    have 1: \<open>(ds @ ''"'' @ r, []) \<in> set (threads n (Literal ?L) (s, []))\<close>
      by (subst r) (simp add: threads_Literal [OF L])
    have \<open>(''"'' @ r, []) \<in> set (threads n (Plus True (CharClass perl_d)) (ds @ ''"'' @ r, []))\<close>
      unfolding threads_Plus_digits_iff using ds by auto
    then have 2: \<open>(''"'' @ r, [(1, ds)])
        \<in> set (threads n (Capture 1 (Plus True (CharClass perl_d))) (ds @ ''"'' @ r, []))\<close>
      by (force simp: threads.simps(6))
    have 3: \<open>(r, [(1, ds)]) \<in> set (threads n (Literal ''"'') (''"'' @ r, [(1, ds)]))\<close>
      by (simp add: lit)
    from 1 2 3 show \<open>st \<in> set (threads n (prog pixelHtmlExpr) (s, []))\<close>
      unfolding st' pixelHtmlExpr_def
      by (auto simp: threads_Concat_iff threads.simps(1))
  qed
qed

lemma attribute_value_iff: "attribute_value s = Some ds \<longleftrightarrow> attribute_here s ds"
proof
  assume "attribute_value s = Some ds"
  then have p: \<open>prefix ''bazadebezolkohpepadr="'' s\<close>
    and ds: \<open>ds = takeWhile digit (drop (length ''bazadebezolkohpepadr="'') s)\<close> "ds \<noteq> []"
    and q: \<open>prefix ''"'' (dropWhile digit (drop (length ''bazadebezolkohpepadr="'') s))\<close>
    by (auto simp: attribute_value_def Let_def split: if_splits)
  from p have s: \<open>s = ''bazadebezolkohpepadr="'' @ drop (length ''bazadebezolkohpepadr="'') s\<close>
    by (metis append_take_drop_id prefix_def append_eq_conv_conj)
  from q obtain r where
    r: \<open>dropWhile digit (drop (length ''bazadebezolkohpepadr="'') s) = ''"'' @ r\<close>
    by (auto simp: prefix_def)
  have \<open>drop (length ''bazadebezolkohpepadr="'') s = ds @ ''"'' @ r\<close>
    unfolding ds(1) r [symmetric] by simp
  with s have \<open>s = ''bazadebezolkohpepadr="'' @ ds @ ''"'' @ r\<close> by simp
  then have \<open>prefix (''bazadebezolkohpepadr="'' @ ds @ ''"'') s\<close>
    by (metis append.assoc prefixI)
  moreover have "\<forall>d\<in>set ds. digit d"
    unfolding ds(1) by (auto dest: set_takeWhileD)
  ultimately show "attribute_here s ds"
    using ds(2) by (simp add: attribute_here_def)
next
  assume "attribute_here s ds"
  then obtain r where ds: "ds \<noteq> []" "\<forall>d\<in>set ds. digit d"
    and r: \<open>s = ''bazadebezolkohpepadr="'' @ ds @ CHR 0x22 # r\<close>
    by (auto simp: attribute_here_def prefix_def)
  from ds(2) have t: "takeWhile digit (ds @ CHR 0x22 # r) = ds"
    by (simp add: takeWhile_tail not_digit_quote)
  from ds(2) have d: "dropWhile digit (ds @ CHR 0x22 # r) = CHR 0x22 # r"
    by (simp add: dropWhile_append3 not_digit_quote)
  show "attribute_value s = Some ds"
    unfolding attribute_value_def r using ds(1) by (simp add: t d)
qed

lemma threads_pixelHtmlExpr_None:
  "attribute_value s = None \<Longrightarrow> threads n (prog pixelHtmlExpr) (s, []) = []"
proof (cases "threads n (prog pixelHtmlExpr) (s, [])")
  case Nil
  then show ?thesis .
next
  case (Cons st sts)
  assume a: "attribute_value s = None"
  from Cons have "st \<in> set (threads n (prog pixelHtmlExpr) (s, []))" by simp
  then obtain ds where "attribute_here s ds" unfolding threads_pixelHtmlExpr by blast
  then have "attribute_value s = Some ds" by (simp add: attribute_value_iff)
  with a show ?thesis by simp
qed

lemma threads_pixelHtmlExpr_Some:
  assumes "attribute_value s = Some ds"
  shows \<open>\<exists>sts. threads n (prog pixelHtmlExpr) (s, [])
           = (drop (length (''bazadebezolkohpepadr="'' @ ds @ ''"'')) s, [(1, ds)]) # sts\<close>
proof -
  from assms have h: "attribute_here s ds" by (simp add: attribute_value_iff)
  then have \<open>(drop (length (''bazadebezolkohpepadr="'' @ ds @ ''"'')) s, [(1, ds)])
             \<in> set (threads n (prog pixelHtmlExpr) (s, []))\<close>
    unfolding threads_pixelHtmlExpr by blast
  then obtain st sts where t: "threads n (prog pixelHtmlExpr) (s, []) = st # sts"
    by (cases "threads n (prog pixelHtmlExpr) (s, [])") auto
  then have "st \<in> set (threads n (prog pixelHtmlExpr) (s, []))" by simp
  then obtain ds' where h': "attribute_here s ds'"
    and st: \<open>st = (drop (length (''bazadebezolkohpepadr="'' @ ds' @ ''"'')) s, [(1, ds')])\<close>
    unfolding threads_pixelHtmlExpr by blast
  from attribute_here_unique [OF h h'] have "ds' = ds" by simp
  with t st show ?thesis by simp
qed

text \<open>
  The unanchored search steps over whole runes. A byte inside the encoding of a rune is
  no ASCII byte, so the search tries every position where an ASCII byte stands, and it
  returns the first thread of the leftmost position that has one.
\<close>

lemma DecodeRune_width_le: "snd (DecodeRune s) \<le> 4"
  by (cases s) (simp_all add: DecodeRune.simps(2) Let_def)

lemma DecodeRune_width_length: "snd (DecodeRune s) \<le> length s"
proof (cases s)
  case Nil
  then show ?thesis by simp
next
  case (Cons c cs)
  show ?thesis unfolding Cons
    by (cases cs) (auto simp: DecodeRune.simps(2) Let_def Suc_le_eq)
qed

lemma DecodeRune_continuation:
  assumes "0 < k" and "k < snd (DecodeRune s)"
  shows "128 \<le> (of_char (s ! k) :: nat)"
proof (cases s)
  case Nil
  with assms show ?thesis by simp
next
  case (Cons c cs)
  from assms DecodeRune_width_le [of s] have k: "k = 1 \<or> k = 2 \<or> k = 3" by arith
  from assms(2) k show ?thesis
    unfolding Cons
    by (auto simp: DecodeRune.simps(2) Let_def split: if_splits)
qed

lemma search_None:
  "\<forall>j\<le>length s. threads n re (drop j s, []) = [] \<Longrightarrow> search n re s = None"
proof (induction n re s rule: search.induct)
  case (1 n re s)
  from 1(2) have t: "threads n re (s, []) = []" by (metis drop0 le0)
  show ?case
  proof (cases "s = []")
    case True
    with search_Nil [OF t] show ?thesis by simp
  next
    case False
    have "\<forall>j\<le>length (drop (snd (DecodeRune s)) s).
            threads n re (drop j (drop (snd (DecodeRune s)) s), []) = []"
    proof (intro allI impI)
      fix j assume "j \<le> length (drop (snd (DecodeRune s)) s)"
      with DecodeRune_width_length [of s] have "j + snd (DecodeRune s) \<le> length s" by simp
      with 1(2) have "threads n re (drop (j + snd (DecodeRune s)) s, []) = []" by blast
      then show "threads n re (drop j (drop (snd (DecodeRune s)) s), []) = []"
        by (simp add: add.commute)
    qed
    from 1(1) [OF t False this] search_Nil [OF t] False show ?thesis by simp
  qed
qed

lemma search_leftmost:
  assumes "i \<le> length s"
    and "threads n re (drop i s, []) = st # sts"
    and "\<forall>j<i. threads n re (drop j s, []) = []"
    and "i < length s \<longrightarrow> (of_char (s ! i) :: nat) < 128"
  shows "search n re s = Some (n - (length s - i), st)"
  using assms
proof (induction n re s arbitrary: i rule: search.induct)
  case (1 n re s)
  show ?case
  proof (cases i)
    case 0
    with 1(3) search_Cons [of n re s st sts] show ?thesis by simp
  next
    case (Suc i')
    with 1(4) have t: "threads n re (s, []) = []" by (metis drop0 zero_less_Suc)
    from Suc 1(2) have ne: "s \<noteq> []" by auto
    let ?w = "snd (DecodeRune s)"
    have w0: "0 < ?w" using ne by (simp add: DecodeRune_width_pos)
    have wi: "?w \<le> i"
    proof (rule ccontr)
      assume "\<not> ?w \<le> i"
      then have lt: "i < ?w" by simp
      from Suc have "0 < i" by simp
      from DecodeRune_continuation [OF this lt] have hi: "128 \<le> (of_char (s ! i) :: nat)" .
      show False
      proof (cases "i < length s")
        case True
        with 1(5) hi show False by simp
      next
        case False
        with 1(2) have "i = length s" by simp
        moreover have "?w \<le> length s" by (rule DecodeRune_width_length)
        ultimately show False using lt by simp
      qed
    qed
    have a: "i - ?w \<le> length (drop ?w s)" using 1(2) wi by simp
    have d: "drop (i - ?w) (drop ?w s) = drop i s" using wi by simp
    have b: "threads n re (drop (i - ?w) (drop ?w s), []) = st # sts"
      unfolding d by (rule 1(3))
    have c: "\<forall>j<i - ?w. threads n re (drop j (drop ?w s), []) = []"
    proof (intro allI impI)
      fix j assume "j < i - ?w"
      then have "j + ?w < i" by simp
      with 1(4) have "threads n re (drop (j + ?w) s, []) = []" by blast
      then show "threads n re (drop j (drop ?w s), []) = []" by (simp add: add.commute)
    qed
    have e: "i - ?w < length (drop ?w s) \<longrightarrow> (of_char (drop ?w s ! (i - ?w)) :: nat) < 128"
      using 1(5) 1(2) wi by (auto simp: add.commute)
    from 1(1) [OF t ne a b c e] search_Nil [OF t] ne
    have "search n re s = Some (n - (length (drop ?w s) - (i - ?w)), st)" by simp
    moreover have "length (drop ?w s) - (i - ?w) = length s - i"
      using wi 1(2) by simp
    ultimately show ?thesis by simp
  qed
qed

text \<open>
  \<^verbatim>\<open>strconv.Atoi\<close> on a string of digits: the number, or the range error when the
  number does not fit an \<^verbatim>\<open>int\<close> of 64 bits.
\<close>

lemma decimal_from_ge: "n \<le> decimal_from n ds"
proof (induction ds arbitrary: n)
  case Nil
  show ?case by simp
next
  case (Cons d ds)
  have "n \<le> n * 10 + ((of_char d :: nat) - 48)" by simp
  also have "\<dots> \<le> decimal_from (n * 10 + ((of_char d :: nat) - 48)) ds" by (rule Cons.IH)
  finally show ?case by simp
qed

lemma decimal_from_bound:
  "\<forall>d\<in>set ds. digit d \<Longrightarrow> decimal_from n ds < (n + 1) * 10 ^ length ds"
proof (induction ds arbitrary: n)
  case Nil
  show ?case by simp
next
  case (Cons d ds)
  from Cons.prems have "digit d" by simp
  then have d: "(of_char d :: nat) - 48 \<le> 9" unfolding digit_def by arith
  from Cons.prems have "decimal_from (n * 10 + ((of_char d :: nat) - 48)) ds
      < (n * 10 + ((of_char d :: nat) - 48) + 1) * 10 ^ length ds"
    by (intro Cons.IH) simp
  also have "\<dots> \<le> ((n + 1) * 10) * 10 ^ length ds"
    using d by (intro mult_right_mono) simp_all
  finally show ?case by (simp add: algebra_simps)
qed

lemma Atoi_fast_loop_digits:
  "\<forall>d\<in>set ds. digit d \<Longrightarrow> Atoi_fast_loop (int n) ds = Some (int (decimal_from n ds))"
proof (induction ds arbitrary: n)
  case Nil
  show ?case by simp
next
  case (Cons d ds)
  from Cons.prems have d: "48 \<le> (of_char d :: nat)" "(of_char d :: nat) \<le> 57"
    by (simp_all add: digit_def)
  then have m: "((of_char d :: nat) + 256 - 48) mod 256 = (of_char d :: nat) - 48"
    by (simp add: mod_if)
  from d have x: "\<not> 9 < (of_char d :: nat) - 48" by arith
  have i: "int n * 10 + int ((of_char d :: nat) - 48) = int (n * 10 + ((of_char d :: nat) - 48))"
    by (simp only: of_nat_add of_nat_mult of_nat_numeral)
  have "Atoi_fast_loop (int n) (d # ds)
        = Atoi_fast_loop (int (n * 10 + ((of_char d :: nat) - 48))) ds"
    unfolding Atoi_fast_loop.simps m Let_def i by (simp only: x if_False)
  also have "\<dots> = Some (int (decimal_from (n * 10 + ((of_char d :: nat) - 48)) ds))"
    using Cons.prems by (intro Cons.IH) simp
  finally show ?case by simp
qed

lemma ParseUint_loop_digits:
  "\<forall>d\<in>set ds. digit d \<Longrightarrow> n < 18446744073709551616 \<Longrightarrow>
   ParseUint_loop 10 18446744073709551615 n ds
   = (if decimal_from n ds < 18446744073709551616 then (decimal_from n ds, None)
      else (18446744073709551615, Some ErrRange))"
proof (induction ds arbitrary: n)
  case Nil
  then show ?case by simp
next
  case (Cons d ds)
  from Cons.prems have "digit d" by simp
  then have d: "48 \<le> (of_char d :: nat)" "(of_char d :: nat) \<le> 57"
    by (simp_all add: digit_def)
  define x where "x = (of_char d :: nat) - 48"
  from d have x9: "x \<le> 9" unfolding x_def by arith
  from d have dv: "digit_val d = Some x"
    unfolding x_def by (simp add: digit_val_def Let_def)
  have ge: "n * 10 + x \<le> decimal_from (n * 10 + x) ds" by (rule decimal_from_ge)
  have IH: "ParseUint_loop 10 18446744073709551615 (n * 10 + x) ds
   = (if decimal_from (n * 10 + x) ds < 18446744073709551616
      then (decimal_from (n * 10 + x) ds, None)
      else (18446744073709551615, Some ErrRange))"
    if "n * 10 + x < 18446744073709551616"
    using Cons.prems that by (intro Cons.IH) simp_all
  have df: "decimal_from n (d # ds) = decimal_from (n * 10 + x) ds"
    by (simp add: x_def)
  have c: "(2 ^ 64 - 1) div 10 + 1 = (1844674407370955162 :: nat)" by simp
  have p: "(2 :: nat) ^ 64 = 18446744073709551616" by simp
  show ?case
  proof (cases "n \<ge> 1844674407370955162")
    case True
    with ge have "\<not> decimal_from (n * 10 + x) ds < 18446744073709551616" by arith
    with True x9 show ?thesis
      unfolding df ParseUint_loop.simps dv c p by simp
  next
    case False
    show ?thesis
    proof (cases "n * 10 + x < 18446744073709551616")
      case True
      then have m: "(n * 10 + x) mod 18446744073709551616 = n * 10 + x" by simp
      from True False x9 show ?thesis
        unfolding df ParseUint_loop.simps dv c p Let_def by (simp add: m IH [OF True])
    next
      case False2: False
      with False x9 have m: "(n * 10 + x) mod 18446744073709551616 = n * 10 + x - 18446744073709551616"
        by (simp add: mod_if)
      from False2 False x9 have lt: "n * 10 + x - 18446744073709551616 < n * 10" by arith
      from False2 ge have "\<not> decimal_from (n * 10 + x) ds < 18446744073709551616" by arith
      with False x9 lt show ?thesis
        unfolding df ParseUint_loop.simps dv c p Let_def by (simp add: m)
    qed
  qed
qed

lemma Atoi_digits:
  assumes "ds \<noteq> []" and "\<forall>d\<in>set ds. digit d"
  shows "Atoi ds = (if decimal ds < 2 ^ 63 then (int (decimal ds), None)
                    else (2 ^ 63 - 1, Some (NumError ''Atoi'' ds ErrRange)))"
proof -
  from assms have "digit (hd ds)" by (cases ds) simp_all
  then have h: "hd ds \<noteq> CHR ''-''" "hd ds \<noteq> CHR ''+''"
    by (auto simp: digit_def)
  show ?thesis
  proof (cases "length ds < 19")
    case True
    from decimal_from_bound [OF assms(2), of 0]
    have "decimal ds < 10 ^ length ds" by (simp add: decimal_def)
    also have "(10 :: nat) ^ length ds \<le> 10 ^ 18"
      using True by (intro power_increasing) simp_all
    finally have small: "decimal ds < 2 ^ 63" by simp
    from Atoi_fast_loop_digits [OF assms(2), of 0]
    have "Atoi_fast_loop 0 ds = Some (int (decimal ds))" by (simp add: decimal_def)
    with True assms(1) h small show ?thesis
      by (simp add: Atoi_def)
  next
    case False
    from ParseUint_loop_digits [OF assms(2), of 0]
    have l: "ParseUint_loop 10 18446744073709551615 0 ds
       = (if decimal ds < 18446744073709551616 then (decimal ds, None)
          else (18446744073709551615, Some ErrRange))"
      by (simp add: decimal_def)
    have u: "ParseUint ds 10 0
       = (if decimal ds < 18446744073709551616 then (decimal ds, None)
          else (18446744073709551615, Some (NumError ''ParseUint'' ds ErrRange)))"
      using assms(1) by (simp add: ParseUint_def l)
    have i: "ParseInt ds 10 0
       = (if decimal ds < 9223372036854775808 then (int (decimal ds), None)
          else (9223372036854775807, Some (NumError ''ParseInt'' ds ErrRange)))"
      using assms(1) h by (simp add: ParseInt_def u)
    from False show ?thesis
      by (simp add: Atoi_def i)
  qed
qed

lemma FindSubmatch_pixelHtmlExpr_found:
  assumes "attribute_at src i = Some ds" and "no_attribute_before src i"
  shows "\<exists>whole. FindSubmatch pixelHtmlExpr src = [whole, ds]"
proof -
  let ?re = "prog pixelHtmlExpr"
  let ?st = \<open>(drop (length (''bazadebezolkohpepadr="'' @ ds @ ''"'')) (drop i src), [(1 :: nat, ds)])\<close>
  from assms(1) have v: "attribute_value (drop i src) = Some ds"
    by (simp add: attribute_at_def)
  then have h: "attribute_here (drop i src) ds" by (simp add: attribute_value_iff)
  then obtain r where d: \<open>drop i src = CHR ''b'' # r\<close>
    by (auto simp: attribute_here_def prefix_def)
  then have i: "i < length src" by (metis drop_all list.distinct(1) not_le)
  from d i have b: "src ! i = CHR ''b''" by (metis hd_drop_conv_nth list.sel(1))
  from threads_pixelHtmlExpr_Some [OF v, of "length src"]
  obtain sts where t: "threads (length src) ?re (drop i src, []) = ?st # sts" by blast
  have e: "\<forall>j<i. threads (length src) ?re (drop j src, []) = []"
    using assms(2)
    by (auto simp: no_attribute_before_def attribute_at_def intro: threads_pixelHtmlExpr_None)
  have "search (length src) ?re src = Some (length src - (length src - i), ?st)"
    using i b by (intro search_leftmost [OF _ t e]) simp_all
  then have "FindSubmatch pixelHtmlExpr src = submatches pixelHtmlExpr src (i, ?st)"
    using i by (simp add: FindSubmatch_def)
  then show ?thesis
    by (simp add: submatches_def pixelHtmlExpr_def Let_def)
qed

lemma FindSubmatch_pixelHtmlExpr_absent:
  assumes "no_attribute_before src (Suc (length src))"
  shows "FindSubmatch pixelHtmlExpr src = []"
proof -
  have "\<forall>j\<le>length src. threads (length src) (prog pixelHtmlExpr) (drop j src, []) = []"
    using assms
    by (auto simp: no_attribute_before_def attribute_at_def less_Suc_eq_le
          intro: threads_pixelHtmlExpr_None)
  from search_None [OF this] show ?thesis by (simp add: FindSubmatch_def)
qed

text \<open>
  C6 (as amended). The result is decided by the leftmost place of the input where the
  attribute is written with a value of digits, \<^verbatim>\<open>bazadebezolkohpepadr="<digits>"\<close>: when
  the value is below \<open>2 ^ 63\<close> the result is this number and nil, so \<open>(500, nil)\<close> for the
  value \<open>500\<close>; otherwise the result is the compound error, \<open>ErrPixelHtmlVarNotFound\<close>
  joined with the range error of \<^verbatim>\<open>Atoi\<close>. When the attribute is nowhere written with
  digits, as in \<^verbatim>\<open>bazadebezolkohpepadr="a"\<close> and in a page without the attribute, the
  result is the plain \<open>ErrPixelHtmlVarNotFound\<close>.
\<close>

theorem GetPixelChallengeHtmlVar_leftmost_attribute:
  "(attribute_at src i = Some ds \<and> no_attribute_before src i \<longrightarrow>
      GetPixelChallengeHtmlVar src
      = (if decimal ds < 2 ^ 63 then (int (decimal ds), None)
         else (0, Some (joinError [ErrPixelHtmlVarNotFound, NumError ''Atoi'' ds ErrRange]))))
   \<and> (no_attribute_before src (Suc (length src)) \<longrightarrow>
        GetPixelChallengeHtmlVar src = (0, Some ErrPixelHtmlVarNotFound))"
proof (intro conjI impI)
  assume a: "attribute_at src i = Some ds \<and> no_attribute_before src i"
  then obtain whole where f: "FindSubmatch pixelHtmlExpr src = [whole, ds]"
    using FindSubmatch_pixelHtmlExpr_found by blast
  from a have "attribute_here (drop i src) ds"
    by (simp add: attribute_at_def attribute_value_iff)
  then have ds: "ds \<noteq> []" "\<forall>d\<in>set ds. digit d" by (simp_all add: attribute_here_def)
  show "GetPixelChallengeHtmlVar src
      = (if decimal ds < 2 ^ 63 then (int (decimal ds), None)
         else (0, Some (joinError [ErrPixelHtmlVarNotFound, NumError ''Atoi'' ds ErrRange])))"
    by (simp add: GetPixelChallengeHtmlVar_def f Atoi_digits [OF ds] errors_Join_def
          List.map_filter_def)
next
  assume "no_attribute_before src (Suc (length src))"
  from FindSubmatch_pixelHtmlExpr_absent [OF this]
  show "GetPixelChallengeHtmlVar src = (0, Some ErrPixelHtmlVarNotFound)"
    by (simp add: GetPixelChallengeHtmlVar_def)
qed

lemmas attribute_eval = attribute_at_def attribute_value_def no_attribute_before_def digit_def
  decimal_def All_less_Suc

theorem GetPixelChallengeHtmlVar_leftmost_attribute_witness:
  \<open>(attribute_at ''<i bazadebezolkohpepadr="500">'' 3 = Some ''500''
     \<and> no_attribute_before ''<i bazadebezolkohpepadr="500">'' 3)
   \<and> GetPixelChallengeHtmlVar ''<i bazadebezolkohpepadr="500">'' = (500, None)
   \<and> (attribute_at ''bazadebezolkohpepadr="a" bazadebezolkohpepadr="7"'' 25 = Some ''7''
        \<and> no_attribute_before ''bazadebezolkohpepadr="a" bazadebezolkohpepadr="7"'' 25)
   \<and> GetPixelChallengeHtmlVar ''bazadebezolkohpepadr="a" bazadebezolkohpepadr="7"'' = (7, None)
   \<and> (attribute_at ''bazadebezolkohpepadr="9223372036854775808"'' 0
          = Some ''9223372036854775808''
        \<and> no_attribute_before ''bazadebezolkohpepadr="9223372036854775808"'' 0)
   \<and> GetPixelChallengeHtmlVar ''bazadebezolkohpepadr="9223372036854775808"''
       = (0, Some (joinError [ErrPixelHtmlVarNotFound,
                     NumError ''Atoi'' ''9223372036854775808'' ErrRange]))
   \<and> no_attribute_before ''bazadebezolkohpepadr="a"'' (Suc (length ''bazadebezolkohpepadr="a"''))
   \<and> GetPixelChallengeHtmlVar ''bazadebezolkohpepadr="a"'' = (0, Some ErrPixelHtmlVarNotFound)\<close>
proof -
  have a: \<open>attribute_at ''<i bazadebezolkohpepadr="500">'' 3 = Some ''500''
     \<and> no_attribute_before ''<i bazadebezolkohpepadr="500">'' 3\<close>
    by (simp add: attribute_eval eval_nat_numeral)
  have b: \<open>attribute_at ''bazadebezolkohpepadr="a" bazadebezolkohpepadr="7"'' 25 = Some ''7''
        \<and> no_attribute_before ''bazadebezolkohpepadr="a" bazadebezolkohpepadr="7"'' 25\<close>
    by (simp add: attribute_eval eval_nat_numeral)
  have c: \<open>attribute_at ''bazadebezolkohpepadr="9223372036854775808"'' 0
          = Some ''9223372036854775808''
        \<and> no_attribute_before ''bazadebezolkohpepadr="9223372036854775808"'' 0\<close>
    by (simp add: attribute_eval)
  have d: \<open>no_attribute_before ''bazadebezolkohpepadr="a"''
             (Suc (length ''bazadebezolkohpepadr="a"''))\<close>
    by (simp add: attribute_eval)
  have v: \<open>decimal ''500'' = 500\<close> \<open>decimal ''7'' = 7\<close>
    \<open>decimal ''9223372036854775808'' = 9223372036854775808\<close>
    by (simp_all add: decimal_def)
  from a b c d
    GetPixelChallengeHtmlVar_leftmost_attribute
      [of \<open>''<i bazadebezolkohpepadr="500">''\<close> 3 \<open>''500''\<close>]
    GetPixelChallengeHtmlVar_leftmost_attribute
      [of \<open>''bazadebezolkohpepadr="a" bazadebezolkohpepadr="7"''\<close> 25 \<open>''7''\<close>]
    GetPixelChallengeHtmlVar_leftmost_attribute
      [of \<open>''bazadebezolkohpepadr="9223372036854775808"''\<close> 0 \<open>''9223372036854775808''\<close>]
    GetPixelChallengeHtmlVar_leftmost_attribute
      [of \<open>''bazadebezolkohpepadr="a"''\<close> 0 \<open>''''\<close>]
  show ?thesis
    unfolding v by simp
qed

text \<open>
  The claim as written fails in two ways. On \<^verbatim>\<open>bazadebezolkohpepadr="a"\<close> the error
  is not a compound one: it is the error of the absent attribute. And an input that
  contains \<^verbatim>\<open>bazadebezolkohpepadr="500"\<close> gives 1 when the attribute is written before it
  with the value 1.
\<close>

theorem GetPixelChallengeHtmlVar_malformed_counterexample:
  \<open>GetPixelChallengeHtmlVar ''bazadebezolkohpepadr="a"'' = (0, Some ErrPixelHtmlVarNotFound)
   \<and> GetPixelChallengeHtmlVar ''bazadebezolkohpepadr="a"'' = GetPixelChallengeHtmlVar []
   \<and> GetPixelChallengeHtmlVar ''bazadebezolkohpepadr="1" bazadebezolkohpepadr="500"''
       = (1, None)\<close>
  by (simp add: GetPixelChallengeHtmlVar_def pixelHtmlExpr_def regexp_eval strconv_defs)

section \<open>The obfuscation decoder: properties\<close>

text \<open>
  A segment of two hexadecimal digits, with or without the letter \<^verbatim>\<open>x\<close> before them,
  parses to the code it writes, and the split on the backslash recovers the segments.
\<close>

lemma of_char_hexdigit:
  "d < 16 \<Longrightarrow> (of_char (hexdigit upper d) :: nat)
     = (if d < 10 then 48 + d else (if upper then 55 else 87) + d)"
  by (simp add: hexdigit_def)

lemma digit_val_hexdigit: "d < 16 \<Longrightarrow> digit_val (hexdigit upper d) = Some d"
  by (auto simp: digit_val_def of_char_hexdigit Let_def)

lemma hexdigit_plain:
  assumes "d < 16"
  shows "hexdigit upper d \<notin> {CHR ''x'', CHR 0x5C, CHR ''+'', CHR ''-''}"
proof -
  have "(of_char (hexdigit upper d) :: nat) \<notin> {120, 92, 43, 45}"
    using assms by (auto simp: of_char_hexdigit)
  then show ?thesis by auto
qed

lemma hex2_plain:
  assumes "r < 256"
  shows "set (hex2 upper r) \<inter> {CHR ''x'', CHR 0x5C, CHR ''+'', CHR ''-''} = {}"
proof -
  have d1: "r div 16 < 16" and d2: "r mod 16 < 16" using assms by simp_all
  from hexdigit_plain [OF d1, of upper] hexdigit_plain [OF d2, of upper]
  show ?thesis by (simp add: hex2_def)
qed

lemma ParseUint_loop_step:
  assumes "digit_val c = Some d" and "d < base" and "n < (2 ^ 64 - 1) div base + 1"
    and "n * base + d < 2 ^ 64" and "n * base + d \<le> maxVal"
  shows "ParseUint_loop base maxVal n (c # cs) = ParseUint_loop base maxVal (n * base + d) cs"
proof -
  have m: "(n * base + d) mod 18446744073709551616 = n * base + d"
    using assms(4) by simp
  show ?thesis
    using assms(2,3,5) by (simp add: assms(1) Let_def m)
qed

lemma ParseUint_loop_hex2:
  assumes "r < 256" and "255 \<le> maxVal"
  shows "ParseUint_loop 16 maxVal 0 (hex2 upper r) = (r, None)"
proof -
  have d1: "r div 16 < 16" and d2: "r mod 16 < 16" using assms by simp_all
  have r: "r div 16 * 16 + r mod 16 = r" by simp
  have "ParseUint_loop 16 maxVal 0 (hex2 upper r)
        = ParseUint_loop 16 maxVal (0 * 16 + r div 16) [hexdigit upper (r mod 16)]"
    unfolding hex2_def
    using digit_val_hexdigit [OF d1] d1 _ _ _
  proof (rule ParseUint_loop_step)
    show "(0::nat) < (2 ^ 64 - 1) div 16 + 1" by simp
    show "0 * 16 + r div 16 < 2 ^ 64" using d1 by simp
    show "0 * 16 + r div 16 \<le> maxVal" using d1 assms(2) by simp
  qed
  also have "\<dots> = ParseUint_loop 16 maxVal ((0 * 16 + r div 16) * 16 + r mod 16) []"
    using digit_val_hexdigit [OF d2] d2 _ _ _
  proof (rule ParseUint_loop_step)
    show "0 * 16 + r div 16 < (2 ^ 64 - 1) div 16 + 1" using d1 by simp
    show "(0 * 16 + r div 16) * 16 + r mod 16 < 2 ^ 64" using assms(1) r by simp
    show "(0 * 16 + r div 16) * 16 + r mod 16 \<le> maxVal" using assms r by simp
  qed
  finally show ?thesis using r by simp
qed

lemma ParseInt_hex2:
  assumes "r < 256"
  shows "ParseInt (hex2 upper r) 16 64 = (int r, None)"
proof -
  have ne: "hex2 upper r \<noteq> []" by (simp add: hex2_def)
  have "ParseUint_loop 16 (2 ^ 64 - 1) 0 (hex2 upper r) = (r, None)"
    using assms by (rule ParseUint_loop_hex2) simp
  then have "ParseUint (hex2 upper r) 16 64 = (r, None)"
    using ne by (simp add: ParseUint_def)
  moreover have "hd (hex2 upper r) \<noteq> CHR ''+''" "hd (hex2 upper r) \<noteq> CHR ''-''"
    using hex2_plain [OF assms, of upper] by (auto simp: hex2_def)
  ultimately show ?thesis using assms ne by (simp add: ParseInt_def)
qed

lemma Replace_hex_segment:
  assumes "r < 256"
  shows "Replace (hex_segment upper withx r) ''x'' [] (Suc 0) = hex2 upper r"
  using hex2_plain [OF assms, of upper]
  by (auto simp: Replace_def hex_segment_def hex2_def)

lemma hex_segment_no_backslash:
  assumes "r < 256"
  shows "CHR 0x5C \<notin> set (hex_segment upper withx r)"
  using hex2_plain [OF assms, of upper]
  by (auto simp: hex_segment_def)

lemma split_go_segments:
  assumes "\<forall>r\<in>set rs. c \<notin> set (seg r)" and "c \<notin> set f"
  shows "split_go [c] acc (f @ concat (map (\<lambda>r. c # seg r) rs)) = (rev acc @ f) # map seg rs"
  using assms
proof (induction rs arbitrary: acc f)
  case Nil
  then show ?case by (simp add: split_go_last)
next
  case (Cons r rs)
  have "split_go [c] acc (f @ c # (seg r @ concat (map (\<lambda>r. c # seg r) rs)))
        = (rev acc @ f) # split_go [c] [] (seg r @ concat (map (\<lambda>r. c # seg r) rs))"
    using Cons.prems(2) by (rule split_go_field)
  also have "split_go [c] [] (seg r @ concat (map (\<lambda>r. c # seg r) rs)) = seg r # map seg rs"
    using Cons.IH [of "seg r" "[]"] Cons.prems(1) by simp
  finally show ?case by simp
qed

lemma Split_hex_escape:
  assumes "\<forall>r\<in>set rs. r < 256"
  shows "Split (hex_escape upper withx rs) [CHR 0x5C] = [] # map (hex_segment upper withx) rs"
  using split_go_segments [of rs "CHR 0x5C" "hex_segment upper withx" "[]" "[]"] assms
  by (simp add: Split_def hex_escape_def hex_segment_no_backslash)

lemma WriteRune_small:
  assumes "r < 256"
  shows "WriteRune (int r) = AppendRune r"
proof -
  have "int r mod 2 ^ 32 = int r" using assms by simp
  then show ?thesis by (simp add: WriteRune_def)
qed

lemma FromHexString_loop_segments:
  assumes "\<forall>r\<in>set rs. r < 256"
  shows "FromHexString_loop b (map (hex_segment upper withx) rs)
         = (b @ concat (map AppendRune rs), None)"
  using assms
proof (induction rs arbitrary: b)
  case Nil
  then show ?case by simp
next
  case (Cons r rs)
  then have r: "r < 256" by simp
  with Cons show ?case
    by (simp add: Replace_hex_segment [OF r] ParseInt_hex2 [OF r] WriteRune_small [OF r])
qed

lemma FromHexString_hex_escape:
  assumes "\<forall>r\<in>set rs. r < 256"
  shows "FromHexString (hex_escape upper withx rs) = (concat (map AppendRune rs), None)"
  by (simp add: FromHexString_def Split_hex_escape [OF assms] FromHexString_loop_segments [OF assms])

text \<open>
  Writing the runes of a string whose runes are all below 256 gives the string back:
  such a rune was decoded from one byte or from two, and \<open>AppendRune\<close> writes the same
  bytes.
\<close>

lemma mod_offset:
  fixes p :: nat
  assumes "m * q \<le> p" and "p < m * q + m"
  shows "m * q + p mod m = p"
proof -
  obtain k where k: "p = k + q * m" and "k < m"
    using assms by (metis add.commute add_diff_inverse_nat less_diff_conv2 mult.commute not_less)
  then show ?thesis by (simp add: mult.commute)
qed

lemma two_byte_arith:
  fixes p b :: nat
  assumes "194 \<le> p" "p < 224" "128 \<le> b" "b \<le> 191"
  shows "192 + (p mod 32 * 64 + b mod 64) div 64 = p"
    and "128 + (p mod 32 * 64 + b mod 64) mod 64 = b"
    and "128 \<le> p mod 32 * 64 + b mod 64"
    and "p mod 32 * 64 + b mod 64 \<le> 2047"
proof -
  have pm: "192 + p mod 32 = p" using mod_offset [of 32 6 p] assms(1,2) by simp
  have bm: "128 + b mod 64 = b" using mod_offset [of 64 2 b] assms(3,4) by simp
  have dv: "(p mod 32 * 64 + b mod 64) div 64 = p mod 32" by simp
  have md: "(p mod 32 * 64 + b mod 64) mod 64 = b mod 64" by simp
  show "192 + (p mod 32 * 64 + b mod 64) div 64 = p" unfolding dv by (rule pm)
  show "128 + (p mod 32 * 64 + b mod 64) mod 64 = b" unfolding md by (rule bm)
  have "2 \<le> p mod 32" using pm assms(1) by linarith
  then show "128 \<le> p mod 32 * 64 + b mod 64" by simp
  have "p mod 32 < 32" "b mod 64 < 64" by simp_all
  then show "p mod 32 * 64 + b mod 64 \<le> 2047" by linarith
qed

lemma AppendRune_two:
  "128 \<le> r \<Longrightarrow> r \<le> 2047 \<Longrightarrow> AppendRune r = [char_of (192 + r div 64), char_of (128 + r mod 64)]"
  by (simp add: AppendRune_def)

lemma AppendRune_DecodeRune:
  assumes "fst (DecodeRune (x # xs)) < 256"
  shows "AppendRune (fst (DecodeRune (x # xs))) = take (snd (DecodeRune (x # xs))) (x # xs)"
proof -
  let ?p = "of_char x :: nat"
  consider "?p < 128" | "128 \<le> ?p" "?p < 194 \<or> 244 < ?p" | "194 \<le> ?p" "?p < 224"
    | "224 \<le> ?p" "?p < 240" | "240 \<le> ?p" "?p \<le> 244"
    by linarith
  then show ?thesis
  proof cases
    case 1
    then show ?thesis by (simp add: DecodeRune_ascii AppendRune_def)
  next
    case 2
    with assms show ?thesis by (simp add: DecodeRune_invalid_lead RuneError_def)
  next
    case 3
    note two = DecodeRune_two [OF 3, of xs]
    let ?b = "of_char (hd xs) :: nat"
    show ?thesis
    proof (cases "xs = [] \<or> ?b < 128 \<or> 191 < ?b")
      case True
      with assms two show ?thesis by (simp add: RuneError_def)
    next
      case False
      then have ne: "xs \<noteq> []" and b: "128 \<le> ?b" "?b \<le> 191" by auto
      let ?r = "?p mod 32 * 64 + ?b mod 64"
      from False two have d: "DecodeRune (x # xs) = (?r, 2)" by simp
      note ar = two_byte_arith [OF 3 b]
      have "AppendRune ?r = [char_of (192 + ?r div 64), char_of (128 + ?r mod 64)]"
        using ar(3,4) by (rule AppendRune_two)
      also have "\<dots> = [x, hd xs]"
        unfolding ar(1) ar(2) by simp
      also have "\<dots> = take 2 (x # xs)"
        using ne by (cases xs) simp_all
      finally show ?thesis by (simp add: d)
    qed
  next
    case 4
    from DecodeRune_three [OF 4, of xs] assms show ?thesis by (auto simp: RuneError_def)
  next
    case 5
    from DecodeRune_four [OF 5, of xs] assms show ?thesis by (auto simp: RuneError_def)
  qed
qed

lemma AppendRune_runes:
  "\<forall>r\<in>set (runes s). r < 256 \<Longrightarrow> concat (map AppendRune (runes s)) = s"
proof (induction s rule: runes.induct)
  case (1 s)
  show ?case
  proof (cases "s = []")
    case True
    then show ?thesis by (simp add: runes.simps [of "[]"])
  next
    case False
    then obtain x xs where s: "s = x # xs" by (cases s) auto
    have unfold: "runes s = fst (DecodeRune s) # runes (drop (snd (DecodeRune s)) s)"
      using False by (subst runes.simps) simp
    with 1(2) have small: "fst (DecodeRune s) < 256"
      and rest: "\<forall>r\<in>set (runes (drop (snd (DecodeRune s)) s)). r < 256"
      by simp_all
    from AppendRune_DecodeRune [of x xs] small
    have "AppendRune (fst (DecodeRune s)) = take (snd (DecodeRune s)) s"
      unfolding s by simp
    moreover note 1(1) [OF False rest]
    ultimately have "concat (map AppendRune (runes s))
                     = take (snd (DecodeRune s)) s @ drop (snd (DecodeRune s)) s"
      unfolding unfold by simp
    then show ?thesis by simp
  qed
qed

text \<open>
  C5. For every string whose characters (its runes) all have a code below 256, the
  codes that two hexadecimal digits write: escaping each character as a backslash, with
  or without the letter \<^verbatim>\<open>x\<close>, and the two hexadecimal digits of its code, in either case
  of the letters, and then decoding with \<open>FromHexString\<close> gives the string back, with no
  error.
\<close>

theorem FromHexString_roundtrip:
  assumes "\<forall>r\<in>set (runes s). r < 256"
  shows "FromHexString (hex_escape upper withx (runes s)) = (s, None)"
  by (simp add: FromHexString_hex_escape [OF assms] AppendRune_runes [OF assms])

theorem FromHexString_roundtrip_witness:
  "runes [CHR ''A'', CHR 0xC3, CHR 0xA9, CHR ''z''] = [65, 233, 122]
   \<and> hex_escape False True [65, 233, 122]
       = [CHR 0x5C, CHR ''x'', CHR ''4'', CHR ''1'', CHR 0x5C, CHR ''x'', CHR ''e'', CHR ''9'',
          CHR 0x5C, CHR ''x'', CHR ''7'', CHR ''a'']
   \<and> FromHexString
         [CHR 0x5C, CHR ''x'', CHR ''4'', CHR ''1'', CHR 0x5C, CHR ''x'', CHR ''e'', CHR ''9'',
          CHR 0x5C, CHR ''x'', CHR ''7'', CHR ''a'']
       = ([CHR ''A'', CHR 0xC3, CHR 0xA9, CHR ''z''], None)
   \<and> hex_escape True False [65, 233, 122]
       = [CHR 0x5C, CHR ''4'', CHR ''1'', CHR 0x5C, CHR ''E'', CHR ''9'', CHR 0x5C, CHR ''7'',
          CHR ''A'']
   \<and> FromHexString
         [CHR 0x5C, CHR ''4'', CHR ''1'', CHR 0x5C, CHR ''E'', CHR ''9'', CHR 0x5C, CHR ''7'',
          CHR ''A'']
       = ([CHR ''A'', CHR 0xC3, CHR 0xA9, CHR ''z''], None)"
proof -
  have r: "runes [CHR ''A'', CHR 0xC3, CHR 0xA9, CHR ''z''] = [65, 233, 122]"
    by (simp add: runes.simps DecodeRune.simps(2))
  have e: "hex_escape False True [65, 233, 122]
       = [CHR 0x5C, CHR ''x'', CHR ''4'', CHR ''1'', CHR 0x5C, CHR ''x'', CHR ''e'', CHR ''9'',
          CHR 0x5C, CHR ''x'', CHR ''7'', CHR ''a'']"
    "hex_escape True False [65, 233, 122]
       = [CHR 0x5C, CHR ''4'', CHR ''1'', CHR 0x5C, CHR ''E'', CHR ''9'', CHR 0x5C, CHR ''7'',
          CHR ''A'']"
    by (simp_all add: hex_escape_def hex_segment_def hex2_def hexdigit_def char_of_eq_iff)
  from FromHexString_roundtrip [of "[CHR ''A'', CHR 0xC3, CHR 0xA9, CHR ''z'']" False True]
    FromHexString_roundtrip [of "[CHR ''A'', CHR 0xC3, CHR 0xA9, CHR ''z'']" True False]
  show ?thesis
    unfolding r e by (simp add: r e)
qed

section \<open>The orchestrator: properties\<close>

lemmas example_defs = example_url_Parse_def example_doHttpReq_def example_getCookie_def
  example_session_def example_collaborators_def example_start_def example_pixel_page_def
  example_sensor_page_def MethodGet_def MethodPost_def StatusOK_def StatusNotFound_def

text \<open>
  The checks that \<open>Generate\<close> makes before the page fetch: it panics when \<open>doHttpReq\<close>
  is nil, when \<open>getCookie\<close> is nil and when \<open>maxTries \<le> 0\<close>; with these three in order
  it returns the parser's error when the page URL does not parse, and \<open>ErrInvalidPageURL\<close>
  when the parsed URL has no scheme. In each case no call has been made: the log is
  empty and the world is the one before the call.
\<close>

lemma Generate_validation:
  "(doHttpReqF = None \<or> getCookieF = None \<or> maxTries \<le> 0 \<longrightarrow>
      (\<exists>msg. Generate sess url_Parse userAgent pageUrl doHttpReqF getCookieF maxTries schedule w
              = (Panic msg, w, [])))
   \<and> (doHttpReqF \<noteq> None \<and> getCookieF \<noteq> None \<and> 0 < maxTries \<longrightarrow>
        (\<forall>err. url_Parse pageUrl = Inl err \<longrightarrow>
           Generate sess url_Parse userAgent pageUrl doHttpReqF getCookieF maxTries schedule w
           = (Return (Some err), w, []))
        \<and> (\<forall>u. url_Parse pageUrl = Inr u \<and> \<not> IsAbs u \<longrightarrow>
             Generate sess url_Parse userAgent pageUrl doHttpReqF getCookieF maxTries schedule w
             = (Return (Some ErrInvalidPageURL), w, [])))"
  by (auto simp: Generate_def split: option.splits)

lemma Generate_validation_examples:
  "(\<exists>msg. Generate example_session example_url_Parse ''ua'' ''https://x.example/p'' None
            (Some example_getCookie) 2 [] 0 = (Panic msg, 0, []))
   \<and> (\<exists>msg. Generate example_session example_url_Parse ''ua'' ''https://x.example/p''
            (Some (example_doHttpReq 200 [] 200)) None 2 [] 0 = (Panic msg, 0, []))
   \<and> (\<exists>msg. Generate example_session example_url_Parse ''ua'' ''https://x.example/p''
            (Some (example_doHttpReq 200 [] 200)) (Some example_getCookie) 0 [] 0
          = (Panic msg, 0, []))
   \<and> Generate example_session example_url_Parse ''ua'' ''/p''
        (Some (example_doHttpReq 200 [] 200)) (Some example_getCookie) 2 [] 0
      = (Return (Some ErrInvalidPageURL), 0, [])
   \<and> Generate example_session example_url_Parse ''ua'' ''::''
        (Some (example_doHttpReq 200 [] 200)) (Some example_getCookie) 2 [] 0
      = (Return (Some (ExternalError ''parse'')), 0, [])"
  using
    Generate_validation [where doHttpReqF = None and getCookieF = "Some example_getCookie"
      and maxTries = 2 and sess = example_session and url_Parse = example_url_Parse
      and userAgent = "''ua''" and pageUrl = "''https://x.example/p''" and schedule = "[]"
      and w = 0]
    Generate_validation [where doHttpReqF = "Some (example_doHttpReq 200 [] 200)"
      and getCookieF = None and maxTries = 2 and sess = example_session
      and url_Parse = example_url_Parse and userAgent = "''ua''"
      and pageUrl = "''https://x.example/p''" and schedule = "[]" and w = 0]
    Generate_validation [where doHttpReqF = "Some (example_doHttpReq 200 [] 200)"
      and getCookieF = "Some example_getCookie" and maxTries = 0 and sess = example_session
      and url_Parse = example_url_Parse and userAgent = "''ua''"
      and pageUrl = "''https://x.example/p''" and schedule = "[]" and w = 0]
    Generate_validation [where doHttpReqF = "Some (example_doHttpReq 200 [] 200)"
      and getCookieF = "Some example_getCookie" and maxTries = 2 and sess = example_session
      and url_Parse = example_url_Parse and userAgent = "''ua''" and pageUrl = "''/p''"
      and schedule = "[]" and w = 0]
    Generate_validation [where doHttpReqF = "Some (example_doHttpReq 200 [] 200)"
      and getCookieF = "Some example_getCookie" and maxTries = 2 and sess = example_session
      and url_Parse = example_url_Parse and userAgent = "''ua''" and pageUrl = "''::''"
      and schedule = "[]" and w = 0]
  by (simp add: example_url_Parse_def IsAbs_def)

text \<open>
  A run only adds calls to the log.
\<close>

lemma run_calls_extend: "\<exists>rest. calls (run c p st) = calls st @ rest"
proof (induction p arbitrary: st)
  case Done
  show ?case by simp
next
  case (Crash msg)
  show ?case by simp
next
  case (addError e p)
  from addError [of "st\<lparr>errs := errs st @ [e]\<rparr>"] show ?case by simp
next
  case (doHttpReq op url meth payload k)
  obtain res w where r: "httpFunc c op url meth payload (world st) = (res, w)"
    by (cases "httpFunc c op url meth payload (world st)")
  have "\<exists>rest. calls (run c (k res) (st\<lparr>world := w, calls := calls st @ [EvDoHttpReq op url meth payload res]\<rparr>))
          = calls (st\<lparr>world := w, calls := calls st @ [EvDoHttpReq op url meth payload res]\<rparr>) @ rest"
    by (rule doHttpReq) (rule rangeI)
  then show ?case by (auto simp: r)
next
  case (getCookie name k)
  obtain v w where r: "cookieFunc c (pageURL c) name (world st) = (v, w)"
    by (cases "cookieFunc c (pageURL c) name (world st)")
  have "\<exists>rest. calls (run c (k v) (st\<lparr>world := w, calls := calls st @ [EvGetCookie name v]\<rparr>))
          = calls (st\<lparr>world := w, calls := calls st @ [EvGetCookie name v]\<rparr>) @ rest"
    by (rule getCookie) (rule rangeI)
  then show ?case by (auto simp: r)
next
  case (callGeneratePixelPayload req k)
  obtain res w where r: "GeneratePixelPayload (session c) req (world st) = (res, w)"
    by (cases "GeneratePixelPayload (session c) req (world st)")
  have "\<exists>rest. calls (run c (k res) (st\<lparr>world := w, calls := calls st @ [EvGeneratePixelPayload req res]\<rparr>))
          = calls (st\<lparr>world := w, calls := calls st @ [EvGeneratePixelPayload req res]\<rparr>) @ rest"
    by (rule callGeneratePixelPayload) (rule rangeI)
  then show ?case by (auto simp: r)
next
  case (callGetDynamicScriptValues src k)
  obtain res w where r: "GetDynamicScriptValues (session c) src (world st) = (res, w)"
    by (cases "GetDynamicScriptValues (session c) src (world st)")
  have "\<exists>rest. calls (run c (k res) (st\<lparr>world := w, calls := calls st @ [EvGetDynamicScriptValues src res]\<rparr>))
          = calls (st\<lparr>world := w, calls := calls st @ [EvGetDynamicScriptValues src res]\<rparr>) @ rest"
    by (rule callGetDynamicScriptValues) (rule rangeI)
  then show ?case by (auto simp: r)
next
  case (callGenerateSensorData req k)
  obtain res w where r: "GenerateSensorData (session c) req (world st) = (res, w)"
    by (cases "GenerateSensorData (session c) req (world st)")
  have "\<exists>rest. calls (run c (k res) (st\<lparr>world := w, calls := calls st @ [EvGenerateSensorData req res]\<rparr>))
          = calls (st\<lparr>world := w, calls := calls st @ [EvGenerateSensorData req res]\<rparr>) @ rest"
    by (rule callGenerateSensorData) (rule rangeI)
  then show ?case by (auto simp: r)
qed

lemma step_calls_extend: "\<exists>rest. calls (snd (step c p st)) = calls st @ rest"
  by (cases p) (auto simp: Let_def split: prod.splits)

lemma run_par_calls_extend: "\<exists>rest. calls (run_par c schedule p q st) = calls st @ rest"
proof (induction schedule arbitrary: p q st)
  case Nil
  obtain r1 where r1: "calls (run c p st) = calls st @ r1"
    using run_calls_extend by blast
  obtain r2 where r2: "calls (run c q (run c p st)) = calls (run c p st) @ r2"
    using run_calls_extend by blast
  show ?case by (simp add: Let_def r1 r2)
next
  case (Cons first schedule)
  show ?case
  proof (cases "crashed st \<noteq> None")
    case True
    then show ?thesis by simp
  next
    case False
    show ?thesis
    proof (cases first)
      case True
      show ?thesis
      proof (cases "p = Done")
        case pd: True
        with True False run_calls_extend [of c q st] show ?thesis by simp
      next
        case pd: False
        obtain p' st' where s: "step c p st = (p', st')" by (cases "step c p st")
        with step_calls_extend [of c p st] obtain r1 where r1: "calls st' = calls st @ r1"
          by auto
        from Cons [of p' q st'] obtain r2
          where "calls (run_par c schedule p' q st') = calls st' @ r2" by blast
        with True False pd s r1 show ?thesis by simp
      qed
    next
      case ff: False
      show ?thesis
      proof (cases "q = Done")
        case qd: True
        with ff False run_calls_extend [of c p st] show ?thesis by simp
      next
        case qd: False
        obtain q' st' where s: "step c q st = (q', st')" by (cases "step c q st")
        with step_calls_extend [of c q st] obtain r1 where r1: "calls st' = calls st @ r1"
          by auto
        from Cons [of p q' st'] obtain r2
          where "calls (run_par c schedule p q' st') = calls st' @ r2" by blast
        with ff False qd s r1 show ?thesis by simp
      qed
    qed
  qed
qed

lemma errors_Join_not_sentinel: "errors_Join es \<noteq> Some ErrInvalidPageURL"
  by (simp add: errors_Join_def Let_def)

text \<open>
  C7. The comment on \<open>ErrInvalidPageURL\<close> says that an absolute URL must contain a
  scheme and a host. The code asks \<^verbatim>\<open>u.IsAbs()\<close> only, which looks at the scheme: a page
  URL that parses with a scheme and without a host, such as \<^verbatim>\<open>https:\<close>, passes the
  checks. \<open>Generate\<close> then makes the page request, so the log of its calls starts with
  the GET of the page URL, and whatever it returns is not \<open>ErrInvalidPageURL\<close>.
\<close>

theorem Generate_hostless_page_URL:
  "url_Parse pageUrl = Inr u \<and> Scheme u \<noteq> [] \<and> Host u = [] \<and> 0 < maxTries \<longrightarrow>
     (\<exists>out w' rest.
        Generate sess url_Parse userAgent pageUrl (Some doReq) (Some getCk) maxTries schedule w
        = (out, w',
           EvDoHttpReq OpGetPage pageUrl MethodGet None
             (fst (doReq OpGetPage pageUrl MethodGet None w)) # rest)
        \<and> out \<noteq> Return (Some ErrInvalidPageURL))"
proof
  assume a: "url_Parse pageUrl = Inr u \<and> Scheme u \<noteq> [] \<and> Host u = [] \<and> 0 < maxTries"
  obtain statusCode pageBody err w1
    where r: "doReq OpGetPage pageUrl MethodGet None w = ((statusCode, pageBody, err), w1)"
    by (metis prod_cases3 surj_pair)
  let ?ev = "EvDoHttpReq OpGetPage pageUrl MethodGet None (statusCode, pageBody, err)"
  let ?c = "\<lparr>session = sess, httpFunc = doReq, cookieFunc = getCk, pageURL = u\<rparr>"
  let ?st = "run_par ?c schedule (pixelWorker userAgent pageBody)
               (sensorWorker userAgent pageUrl u maxTries pageBody)
               \<lparr>world = w1, calls = [?ev], errs = [], crashed = None\<rparr>"
  from run_par_calls_extend [of ?c schedule "pixelWorker userAgent pageBody"
      "sensorWorker userAgent pageUrl u maxTries pageBody"
      "\<lparr>world = w1, calls = [?ev], errs = [], crashed = None\<rparr>"]
  obtain rest where rest: "calls ?st = ?ev # rest" by auto
  show "\<exists>out w' rest.
        Generate sess url_Parse userAgent pageUrl (Some doReq) (Some getCk) maxTries schedule w
        = (out, w',
           EvDoHttpReq OpGetPage pageUrl MethodGet None
             (fst (doReq OpGetPage pageUrl MethodGet None w)) # rest)
        \<and> out \<noteq> Return (Some ErrInvalidPageURL)"
    using a rest
    by (auto simp: Generate_def IsAbs_def r Let_def errors_Join_not_sentinel
          split: option.splits)
qed

theorem Generate_hostless_page_URL_witness:
  "(example_url_Parse_hostless ''https:'' = Inr \<lparr>Scheme = ''https'', Host = []\<rparr>
     \<and> Scheme \<lparr>Scheme = ''https'', Host = []\<rparr> \<noteq> []
     \<and> Host \<lparr>Scheme = ''https'', Host = []\<rparr> = [] \<and> (0 :: int) < 2)
   \<and> Generate example_session example_url_Parse_hostless ''ua'' ''https:''
        (Some (example_doHttpReq 200 [] 200)) (Some example_getCookie) 2 [] 0
      = (Return None, 1, [EvDoHttpReq OpGetPage ''https:'' ''GET'' None (200, [], None)])
   \<and> Generate example_session example_url_Parse_hostless ''ua'' ''https:''
        (Some (example_doHttpReq 404 [] 200)) (Some example_getCookie) 2 [] 0
      = (Return (Some (joinError [HttpOpError OpGetPage, BadStatusCodeError 404])), 1,
         [EvDoHttpReq OpGetPage ''https:'' ''GET'' None (404, [], None)])"
proof -
  have p: "GetPixelChallengeScriptURL [] = (False, [], [])"
    by (simp add: GetPixelChallengeScriptURL_def pixelScriptUrlExpr_def regexp_eval)
  have s: "GetScriptPath [] = []"
    by (simp add: GetScriptPath_def scriptPathExpr_def regexp_eval)
  from
    Generate_hostless_page_URL [where url_Parse = example_url_Parse_hostless
      and pageUrl = "''https:''" and u = "\<lparr>Scheme = ''https'', Host = []\<rparr>"
      and maxTries = 2 and sess = example_session and userAgent = "''ua''"
      and doReq = "example_doHttpReq 200 [] 200" and getCk = example_getCookie
      and schedule = "[]" and w = 0]
  show ?thesis
    by (simp add: Generate_def example_url_Parse_hostless_def IsAbs_def example_doHttpReq_def
          pixelWorker_def sensorWorker_def p s MethodGet_def StatusOK_def errors_Join_def
          List.map_filter_def Let_def)
qed

text \<open>
  C8. When the page fetch returns a transport error or a status other than 200,
  \<open>Generate\<close> returns the join of \<open>HttpOpError OpGetPage\<close> and the cause (the transport
  error, or else \<open>BadStatusCodeError\<close> with the status), whatever the schedule; the page
  fetch is the only call made, and the world is the one that call left.
\<close>

theorem Generate_page_fetch_failure:
  assumes "url_Parse pageUrl = Inr u" and "IsAbs u" and "0 < maxTries"
    and "doReq OpGetPage pageUrl MethodGet None w = ((statusCode, pageBody, err), w1)"
    and "err \<noteq> None \<or> statusCode \<noteq> StatusOK"
  shows "Generate sess url_Parse userAgent pageUrl (Some doReq) (Some getCk) maxTries schedule w
         = (Return (Some (joinError [HttpOpError OpGetPage,
                            case err of Some e \<Rightarrow> e | None \<Rightarrow> BadStatusCodeError statusCode])),
            w1,
            [EvDoHttpReq OpGetPage pageUrl MethodGet None (statusCode, pageBody, err)])"
  using assms
  by (auto simp: Generate_def errors_Join_def List.map_filter_def split: option.splits)

theorem Generate_page_fetch_failure_witness:
  "Generate example_session example_url_Parse ''ua'' ''https://x.example/p''
     (Some (example_doHttpReq 503 example_sensor_page 200)) (Some example_getCookie) 2
     [True, False] 0
   = (Return (Some (joinError [HttpOpError OpGetPage, BadStatusCodeError 503])), 1,
      [EvDoHttpReq OpGetPage ''https://x.example/p'' ''GET'' None (503, example_sensor_page, None)])"
proof -
  have p: "example_url_Parse ''https://x.example/p'' = Inr \<lparr>Scheme = ''https'', Host = ''x.example''\<rparr>"
    by (simp add: example_url_Parse_def)
  have a: "IsAbs \<lparr>Scheme = ''https'', Host = ''x.example''\<rparr>"
    by (simp add: IsAbs_def)
  have f: "example_doHttpReq 503 example_sensor_page 200 OpGetPage ''https://x.example/p''
             MethodGet None 0 = ((503, example_sensor_page, None), 1)"
    by (simp add: example_doHttpReq_def)
  have s: "None \<noteq> (None :: error option) \<or> (503 :: int) \<noteq> StatusOK"
    by (simp add: StatusOK_def)
  have m: "(0 :: int) < 2" by simp
  from Generate_page_fetch_failure [where url_Parse = example_url_Parse
      and pageUrl = "''https://x.example/p''" and maxTries = 2
      and doReq = "example_doHttpReq 503 example_sensor_page 200" and w = 0
      and sess = example_session and userAgent = "''ua''" and getCk = example_getCookie
      and schedule = "[True, False]", OF p a m f s]
  show ?thesis by (simp add: MethodGet_def)
qed

text \<open>
  C2. In the pixel worker, when the fetch of the challenge script returns without a
  transport error and with a status other than 200, the worker ends there: the fetch is
  the only call it makes (no payload is generated or posted). With the status 404
  \<^verbatim>\<open>errs\<close> is as before; with any other status \<open>BadStatusCodeError\<close> of that
  status is appended.
\<close>

theorem pixel_script_fetch_status:
  assumes "GetPixelChallengeScriptURL pageBody = (True, scriptUrl, postUrl)"
    and "snd (GetPixelChallengeHtmlVar pageBody) = None"
    and "httpFunc c OpGetPixelChallengeScript scriptUrl MethodGet None (world st)
         = ((statusCode, scriptBody, None), w')"
    and "statusCode \<noteq> StatusOK"
  shows "run c (pixelWorker userAgent pageBody) st
         = st\<lparr>world := w',
              calls := calls st @ [EvDoHttpReq OpGetPixelChallengeScript scriptUrl MethodGet None
                                     (statusCode, scriptBody, None)],
              errs := (if statusCode = StatusNotFound then errs st
                       else errs st @ [BadStatusCodeError statusCode])\<rparr>"
  using assms
  by (cases "GetPixelChallengeHtmlVar pageBody") (simp add: pixelWorker_def)

lemma example_pixel_page_URL:
  "GetPixelChallengeScriptURL example_pixel_page
   = (True, ''https://x.example/akam/12/abcDEF'', ''https://x.example/akam/12/pixel_abcDEF'')"
  by (simp add: GetPixelChallengeScriptURL_def pixelScriptUrlExpr_def example_pixel_page_def
        regexp_eval Split_def)

lemma example_pixel_page_HtmlVar: "GetPixelChallengeHtmlVar example_pixel_page = (500, None)"
  by (simp add: GetPixelChallengeHtmlVar_def pixelHtmlExpr_def example_pixel_page_def
        regexp_eval strconv_defs)

theorem pixel_script_fetch_status_witness:
  "run (example_collaborators 404) (pixelWorker ''ua'' example_pixel_page) example_start
   = \<lparr>world = 1,
      calls = [EvDoHttpReq OpGetPixelChallengeScript ''https://x.example/akam/12/abcDEF'' ''GET''
                 None (404, [], None)],
      errs = [], crashed = None\<rparr>
   \<and> run (example_collaborators 500) (pixelWorker ''ua'' example_pixel_page) example_start
   = \<lparr>world = 1,
      calls = [EvDoHttpReq OpGetPixelChallengeScript ''https://x.example/akam/12/abcDEF'' ''GET''
                 None (500, [], None)],
      errs = [BadStatusCodeError 500], crashed = None\<rparr>"
proof -
  have h: "snd (GetPixelChallengeHtmlVar example_pixel_page) = None"
    by (simp add: example_pixel_page_HtmlVar)
  have f: "httpFunc (example_collaborators s) OpGetPixelChallengeScript
             ''https://x.example/akam/12/abcDEF'' MethodGet None (world example_start)
           = ((s, [], None), 1)" for s
    by (simp add: example_defs)
  have n: "(404 :: int) \<noteq> StatusOK" "(500 :: int) \<noteq> StatusOK"
    by (simp_all add: StatusOK_def)
  from pixel_script_fetch_status [OF example_pixel_page_URL h f n(1), of "''ua''"]
    pixel_script_fetch_status [OF example_pixel_page_URL h f n(2), of "''ua''"]
  show ?thesis by (simp add: example_defs)
qed

text \<open>
  The calls that a run adds, call by call.
\<close>

lemma calls_run: "calls (run c p st) = calls st @ new_calls c p st"
  using run_calls_extend [of c p st] by (auto simp: new_calls_def)

lemma new_calls_after:
  "calls st' = calls st @ [e] \<Longrightarrow>
   drop (length (calls st)) (calls (run c p st')) = e # new_calls c p st'"
  using run_calls_extend [of c p st'] by (auto simp: new_calls_def)

lemma new_calls_Done: "new_calls c Done st = []"
  by (simp add: new_calls_def)

lemma new_calls_Crash: "new_calls c (Crash msg) st = []"
  by (simp add: new_calls_def)

lemma new_calls_addError:
  "new_calls c (addError e p) st = new_calls c p (st\<lparr>errs := errs st @ [e]\<rparr>)"
  by (simp add: new_calls_def)

lemma new_calls_doHttpReq:
  "httpFunc c op url method body (world st) = (res, w) \<Longrightarrow>
   new_calls c (doHttpReq op url method body k) st
   = EvDoHttpReq op url method body res
     # new_calls c (k res)
         (st\<lparr>world := w, calls := calls st @ [EvDoHttpReq op url method body res]\<rparr>)"
  unfolding new_calls_def [of c "doHttpReq op url method body k"]
  by (simp add: new_calls_after)

lemma new_calls_getCookie:
  "cookieFunc c (pageURL c) name (world st) = (v, w) \<Longrightarrow>
   new_calls c (getCookie name k) st
   = EvGetCookie name v
     # new_calls c (k v) (st\<lparr>world := w, calls := calls st @ [EvGetCookie name v]\<rparr>)"
  unfolding new_calls_def [of c "getCookie name k"]
  by (simp add: new_calls_after)

lemma new_calls_callGetDynamicScriptValues:
  "GetDynamicScriptValues (session c) src (world st) = (res, w) \<Longrightarrow>
   new_calls c (callGetDynamicScriptValues src k) st
   = EvGetDynamicScriptValues src res
     # new_calls c (k res)
         (st\<lparr>world := w, calls := calls st @ [EvGetDynamicScriptValues src res]\<rparr>)"
  unfolding new_calls_def [of c "callGetDynamicScriptValues src k"]
  by (simp add: new_calls_after)

lemma new_calls_callGenerateSensorData:
  "GenerateSensorData (session c) req (world st) = (res, w) \<Longrightarrow>
   new_calls c (callGenerateSensorData req k) st
   = EvGenerateSensorData req res
     # new_calls c (k res)
         (st\<lparr>world := w, calls := calls st @ [EvGenerateSensorData req res]\<rparr>)"
  unfolding new_calls_def [of c "callGenerateSensorData req k"]
  by (simp add: new_calls_after)

lemmas new_calls_simps = new_calls_Done new_calls_Crash new_calls_addError
  new_calls_doHttpReq [OF surjective_pairing] new_calls_getCookie [OF surjective_pairing]
  new_calls_callGetDynamicScriptValues [OF surjective_pairing]
  new_calls_callGenerateSensorData [OF surjective_pairing]

text \<open>
  The loop keeps the POSTs in order from every iteration on, and so does the worker.
\<close>

lemma sensorLoop_sensor_posts:
  "sensor_posts su (new_calls c (sensorLoop ua pu ver sv su mt i) st)"
proof (induction "nat (mt - i)" arbitrary: i st ver)
  case 0
  then have "\<not> i < mt" by simp
  then show ?case by (subst sensorLoop.simps) (simp add: new_calls_Done)
next
  case (Suc k)
  then have lt: "i < mt" and k: "k = nat (mt - (i + 1))" by simp_all
  note IH = Suc(1) [OF k]
  show ?case
    apply (subst sensorLoop.simps)
    using lt
    apply (auto simp: new_calls_simps IH split: prod.splits sum.splits option.splits)
    done
qed

lemma sensorWorker_sensor_posts:
  "sensor_posts (Scheme u @ ''://'' @ Host u @ GetScriptPath pageBody)
     (new_calls c (sensorWorker userAgent pageUrl u maxTries pageBody) st)"
  by (auto simp: sensorWorker_def Let_def new_calls_simps sensorLoop_sensor_posts
        split: prod.splits sum.splits option.splits)

text \<open>
  The calls of one iteration in which the service returns a response.
\<close>

lemma sensorLoop_iteration:
  assumes "i < maxTries"
    and "cookieFunc c (pageURL c) ''_abck'' (world st) = (abck, w1)"
    and "(if version = Version2 then cookieFunc c (pageURL c) ''bm_sz'' w1 else ([], w1))
         = (bmSz, w2)"
    and "GenerateSensorData (session c)
           \<lparr>UserAgent = userAgent, Version = version, PageURL = pageUrl, Abck = abck,
            BmSz = bmSz, ScriptValues = scriptValues\<rparr> w2 = (Inr response, w3)"
    and \<open>httpFunc c OpPostSensorData scriptUrl MethodPost
           (Some (''{"sensor_data":"'' @ Payload response @ ''"}'')) w3 = (res, w4)\<close>
  shows \<open>\<exists>rest.
           new_calls c (sensorLoop userAgent pageUrl version scriptValues scriptUrl maxTries i) st
           = EvGetCookie ''_abck'' abck
             # (if version = Version2 then [EvGetCookie ''bm_sz'' bmSz] else [])
             @ [EvGenerateSensorData
                  \<lparr>UserAgent = userAgent, Version = version, PageURL = pageUrl, Abck = abck,
                   BmSz = bmSz, ScriptValues = scriptValues\<rparr> (Inr response),
                EvDoHttpReq OpPostSensorData scriptUrl MethodPost
                  (Some (''{"sensor_data":"'' @ Payload response @ ''"}'')) res]
             @ rest\<close>
proof (cases "version = Version2")
  case True
  with assms(3) have b: "cookieFunc c (pageURL c) ''bm_sz'' w1 = (bmSz, w2)" by simp
  show ?thesis
    apply (subst sensorLoop.simps)
    using assms(1) True
    apply (simp add: new_calls_simps assms(2) b assms(4) [unfolded True] assms(5) [simplified])
    done
next
  case False
  with assms(3) have b: "bmSz = []" "w2 = w1" by simp_all
  show ?thesis
    apply (subst sensorLoop.simps)
    using assms(1) False
    apply (simp add: new_calls_simps assms(2) assms(4) [unfolded b] assms(5) [simplified] b)
    done
qed

text \<open>
  C3. An iteration \<open>i < maxTries\<close> of the retry loop in which \<^verbatim>\<open>GenerateSensorData\<close>
  returns a response makes these calls first, whatever the collaborators are: it reads
  the cookie \<^verbatim>\<open>_abck\<close> (and \<^verbatim>\<open>bm_sz\<close> for version 2), calls \<^verbatim>\<open>GenerateSensorData\<close>,
  and POSTs to the script URL the body made of the literal \<^verbatim>\<open>{"sensor_data":"\<close>, the
  returned payload unchanged, and the literal \<^verbatim>\<open>"}\<close>: no byte of the payload is escaped
  or re-encoded. And in the whole run of the sensor worker the log is the log before it
  and the new calls, among which every \<^verbatim>\<open>GenerateSensorData\<close> that returned a response is
  directly followed by this POST, and there is no other POST of sensor data.
\<close>

theorem sensor_posts_verbatim:
  \<open>(i < maxTries
     \<and> cookieFunc c (pageURL c) ''_abck'' (world st) = (abck, w1)
     \<and> (if version = Version2 then cookieFunc c (pageURL c) ''bm_sz'' w1 else ([], w1))
         = (bmSz, w2)
     \<and> GenerateSensorData (session c)
           \<lparr>UserAgent = userAgent, Version = version, PageURL = pageUrl, Abck = abck,
            BmSz = bmSz, ScriptValues = scriptValues\<rparr> w2 = (Inr response, w3)
     \<and> httpFunc c OpPostSensorData scriptUrl MethodPost
           (Some (''{"sensor_data":"'' @ Payload response @ ''"}'')) w3 = (res, w4)
     \<longrightarrow>
       (\<exists>rest.
          new_calls c (sensorLoop userAgent pageUrl version scriptValues scriptUrl maxTries i) st
          = EvGetCookie ''_abck'' abck
            # (if version = Version2 then [EvGetCookie ''bm_sz'' bmSz] else [])
            @ [EvGenerateSensorData
                 \<lparr>UserAgent = userAgent, Version = version, PageURL = pageUrl, Abck = abck,
                  BmSz = bmSz, ScriptValues = scriptValues\<rparr> (Inr response),
               EvDoHttpReq OpPostSensorData scriptUrl MethodPost
                 (Some (''{"sensor_data":"'' @ Payload response @ ''"}'')) res]
            @ rest))
   \<and> calls (run c (sensorWorker userAgent pageUrl u maxTries pageBody) st)
       = calls st @ new_calls c (sensorWorker userAgent pageUrl u maxTries pageBody) st
   \<and> sensor_posts (Scheme u @ ''://'' @ Host u @ GetScriptPath pageBody)
         (new_calls c (sensorWorker userAgent pageUrl u maxTries pageBody) st)\<close>
proof (intro conjI impI)
  assume a: \<open>i < maxTries
     \<and> cookieFunc c (pageURL c) ''_abck'' (world st) = (abck, w1)
     \<and> (if version = Version2 then cookieFunc c (pageURL c) ''bm_sz'' w1 else ([], w1))
         = (bmSz, w2)
     \<and> GenerateSensorData (session c)
           \<lparr>UserAgent = userAgent, Version = version, PageURL = pageUrl, Abck = abck,
            BmSz = bmSz, ScriptValues = scriptValues\<rparr> w2 = (Inr response, w3)
     \<and> httpFunc c OpPostSensorData scriptUrl MethodPost
           (Some (''{"sensor_data":"'' @ Payload response @ ''"}'')) w3 = (res, w4)\<close>
  then have 1: "i < maxTries"
    and 2: "cookieFunc c (pageURL c) ''_abck'' (world st) = (abck, w1)"
    and 3: "(if version = Version2 then cookieFunc c (pageURL c) ''bm_sz'' w1 else ([], w1))
         = (bmSz, w2)"
    and 4: "GenerateSensorData (session c)
           \<lparr>UserAgent = userAgent, Version = version, PageURL = pageUrl, Abck = abck,
            BmSz = bmSz, ScriptValues = scriptValues\<rparr> w2 = (Inr response, w3)"
    and 5: \<open>httpFunc c OpPostSensorData scriptUrl MethodPost
           (Some (''{"sensor_data":"'' @ Payload response @ ''"}'')) w3 = (res, w4)\<close>
    by blast+
  from sensorLoop_iteration [OF 1 2 3 4 5]
  show \<open>\<exists>rest.
          new_calls c (sensorLoop userAgent pageUrl version scriptValues scriptUrl maxTries i) st
          = EvGetCookie ''_abck'' abck
            # (if version = Version2 then [EvGetCookie ''bm_sz'' bmSz] else [])
            @ [EvGenerateSensorData
                 \<lparr>UserAgent = userAgent, Version = version, PageURL = pageUrl, Abck = abck,
                  BmSz = bmSz, ScriptValues = scriptValues\<rparr> (Inr response),
               EvDoHttpReq OpPostSensorData scriptUrl MethodPost
                 (Some (''{"sensor_data":"'' @ Payload response @ ''"}'')) res]
            @ rest\<close> .
next
  show "calls (run c (sensorWorker userAgent pageUrl u maxTries pageBody) st)
       = calls st @ new_calls c (sensorWorker userAgent pageUrl u maxTries pageBody) st"
    by (rule calls_run)
next
  show "sensor_posts (Scheme u @ ''://'' @ Host u @ GetScriptPath pageBody)
         (new_calls c (sensorWorker userAgent pageUrl u maxTries pageBody) st)"
    by (rule sensorWorker_sensor_posts)
qed

lemma example_sensor_page_path: "GetScriptPath example_sensor_page = ''/akam/sdk''"
  by (simp add: GetScriptPath_def scriptPathExpr_def example_sensor_page_def regexp_eval)

lemma example_script_version:
  "GetSdkVersion ''(function a(){})'' = Version2 \<and> IsScriptStatic ''(function a(){})''"
  by (simp add: GetSdkVersion_prefix IsScriptStatic_def staticScriptExpr_def regexp_eval)

lemma example_retry_cookie:
  "\<not> IsCookieValid ''x~1~y'' 0 \<and> IsCookieValid ''x~1~y'' 1"
  by (simp add: IsCookieValid_def Split_def strconv_defs)

lemmas example_retry_defs = example_retry_collaborators_def example_getCookie_retry_def
  example_session_def example_doHttpReq_def example_start_def MethodGet_def MethodPost_def
  StatusOK_def Version2_def

lemma example_retry_log:
  \<open>new_calls example_retry_collaborators
       (sensorWorker ''ua'' ''https://x.example/p'' \<lparr>Scheme = ''https'', Host = ''x.example''\<rparr>
          3 example_sensor_page) example_start
   = [EvDoHttpReq OpGetSdkScript ''https://x.example/akam/sdk'' ''GET'' None
        (200, ''(function a(){})'', None),
      EvGetCookie ''_abck'' ''x~1~y'',
      EvGetCookie ''bm_sz'' ''z'',
      EvGenerateSensorData
        \<lparr>UserAgent = ''ua'', Version = ''2'', PageURL = ''https://x.example/p'',
         Abck = ''x~1~y'', BmSz = ''z'', ScriptValues = []\<rparr> (Inr \<lparr>Payload = ''a"b''\<rparr>),
      EvDoHttpReq OpPostSensorData ''https://x.example/akam/sdk'' ''POST''
        (Some ''{"sensor_data":"a"b"}'') (201, [], None),
      EvGetCookie ''_abck'' ''x~1~y'',
      EvGetCookie ''_abck'' ''x~1~y'',
      EvGetCookie ''bm_sz'' ''z'',
      EvGenerateSensorData
        \<lparr>UserAgent = ''ua'', Version = ''2'', PageURL = ''https://x.example/p'',
         Abck = ''x~1~y'', BmSz = ''z'', ScriptValues = []\<rparr> (Inr \<lparr>Payload = ''a"b''\<rparr>),
      EvDoHttpReq OpPostSensorData ''https://x.example/akam/sdk'' ''POST''
        (Some ''{"sensor_data":"a"b"}'') (201, [], None),
      EvGetCookie ''_abck'' ''x~1~y'']\<close>
  by (simp add: sensorWorker_def example_sensor_page_path example_script_version
        sensorLoop.simps [of _ _ _ _ _ _ 0] sensorLoop.simps [of _ _ _ _ _ _ 1]
        example_retry_cookie new_calls_simps example_retry_defs Let_def)

theorem sensor_posts_verbatim_witness:
  \<open>((1 :: int) < 3
     \<and> cookieFunc example_retry_collaborators (pageURL example_retry_collaborators) ''_abck''
         (world example_start) = (''x~1~y'', 1)
     \<and> cookieFunc example_retry_collaborators (pageURL example_retry_collaborators) ''bm_sz'' 1
         = (''z'', 2)
     \<and> GenerateSensorData (session example_retry_collaborators)
           \<lparr>UserAgent = ''ua'', Version = Version2, PageURL = ''https://x.example/p'',
            Abck = ''x~1~y'', BmSz = ''z'', ScriptValues = []\<rparr> 2
         = (Inr \<lparr>Payload = ''a"b''\<rparr>, 3)
     \<and> httpFunc example_retry_collaborators OpPostSensorData ''https://x.example/akam/sdk''
           MethodPost (Some ''{"sensor_data":"a"b"}'') 3 = ((201, [], None), 4))
   \<and> (\<exists>rest.
         new_calls example_retry_collaborators
           (sensorLoop ''ua'' ''https://x.example/p'' Version2 []
              ''https://x.example/akam/sdk'' 3 1) example_start
         = [EvGetCookie ''_abck'' ''x~1~y'',
            EvGetCookie ''bm_sz'' ''z'',
            EvGenerateSensorData
              \<lparr>UserAgent = ''ua'', Version = Version2, PageURL = ''https://x.example/p'',
               Abck = ''x~1~y'', BmSz = ''z'', ScriptValues = []\<rparr> (Inr \<lparr>Payload = ''a"b''\<rparr>),
            EvDoHttpReq OpPostSensorData ''https://x.example/akam/sdk'' MethodPost
              (Some ''{"sensor_data":"a"b"}'') (201, [], None)] @ rest)
   \<and> calls (run example_retry_collaborators
              (sensorWorker ''ua'' ''https://x.example/p''
                 \<lparr>Scheme = ''https'', Host = ''x.example''\<rparr> 3 example_sensor_page) example_start)
       = [EvDoHttpReq OpGetSdkScript ''https://x.example/akam/sdk'' ''GET'' None
            (200, ''(function a(){})'', None),
          EvGetCookie ''_abck'' ''x~1~y'',
          EvGetCookie ''bm_sz'' ''z'',
          EvGenerateSensorData
            \<lparr>UserAgent = ''ua'', Version = ''2'', PageURL = ''https://x.example/p'',
             Abck = ''x~1~y'', BmSz = ''z'', ScriptValues = []\<rparr> (Inr \<lparr>Payload = ''a"b''\<rparr>),
          EvDoHttpReq OpPostSensorData ''https://x.example/akam/sdk'' ''POST''
            (Some ''{"sensor_data":"a"b"}'') (201, [], None),
          EvGetCookie ''_abck'' ''x~1~y'',
          EvGetCookie ''_abck'' ''x~1~y'',
          EvGetCookie ''bm_sz'' ''z'',
          EvGenerateSensorData
            \<lparr>UserAgent = ''ua'', Version = ''2'', PageURL = ''https://x.example/p'',
             Abck = ''x~1~y'', BmSz = ''z'', ScriptValues = []\<rparr> (Inr \<lparr>Payload = ''a"b''\<rparr>),
          EvDoHttpReq OpPostSensorData ''https://x.example/akam/sdk'' ''POST''
            (Some ''{"sensor_data":"a"b"}'') (201, [], None),
          EvGetCookie ''_abck'' ''x~1~y'']
   \<and> sensor_posts ''https://x.example/akam/sdk''
         (new_calls example_retry_collaborators
            (sensorWorker ''ua'' ''https://x.example/p''
               \<lparr>Scheme = ''https'', Host = ''x.example''\<rparr> 3 example_sensor_page)
            example_start)\<close>
proof -
  have h: \<open>(1 :: int) < 3
     \<and> cookieFunc example_retry_collaborators (pageURL example_retry_collaborators) ''_abck''
         (world example_start) = (''x~1~y'', 1)
     \<and> (if Version2 = Version2
          then cookieFunc example_retry_collaborators (pageURL example_retry_collaborators)
                 ''bm_sz'' 1
          else ([], 1)) = (''z'', 2)
     \<and> GenerateSensorData (session example_retry_collaborators)
           \<lparr>UserAgent = ''ua'', Version = Version2, PageURL = ''https://x.example/p'',
            Abck = ''x~1~y'', BmSz = ''z'', ScriptValues = []\<rparr> 2
         = (Inr \<lparr>Payload = ''a"b''\<rparr>, 3)
     \<and> httpFunc example_retry_collaborators OpPostSensorData ''https://x.example/akam/sdk''
           MethodPost (Some (''{"sensor_data":"'' @ Payload \<lparr>Payload = ''a"b''\<rparr> @ ''"}'')) 3
         = ((201, [], None), 4)\<close>
    by (simp add: example_retry_defs)
  from h example_retry_log
    sensor_posts_verbatim [of 1 3 example_retry_collaborators example_start \<open>''x~1~y''\<close> 1
      Version2 \<open>''z''\<close> 2 \<open>''ua''\<close> \<open>''https://x.example/p''\<close> \<open>[]\<close>
      \<open>\<lparr>Payload = ''a"b''\<rparr>\<close> 3 \<open>''https://x.example/akam/sdk''\<close> \<open>(201, [], None)\<close> 4
      \<open>\<lparr>Scheme = ''https'', Host = ''x.example''\<rparr>\<close> example_sensor_page]
  show ?thesis
    by (simp add: example_sensor_page_path example_start_def)
qed

end
